theory Spec2Isabelle
  imports Main "HOL-Library.Word"
begin

unbundle bit_operations_syntax

section \<open>Machine types, constants and errors\<close>

type_synonym u8 = "8 word"
type_synonym u16 = "16 word"
type_synonym u32 = "32 word"

text \<open>\<^verbatim>\<open>const uint16_t RSSI_MAX_VALUE = 65535;\<close> -- the sentinel of an invalid or
  blacklisted bin, and the "auto" value of the trigger level.\<close>

definition RSSI_MAX_VALUE :: u16 where
  "RSSI_MAX_VALUE = 65535"

text \<open>An access beyond the end of one of the fixed-size arrays is undefined behaviour in C.
  The model makes it a value: every function that indexes an array with a computed index
  returns \<open>error + state\<close>, and \<open>Inl (OutOfBounds k)\<close> says that element \<open>k\<close> of an array
  with fewer elements was touched.\<close>

datatype error = OutOfBounds nat

definition rd :: "'a list \<Rightarrow> nat \<Rightarrow> error + 'a" where
  "rd xs k = (if k < length xs then Inr (xs ! k) else Inl (OutOfBounds k))"

definition wr :: "'a list \<Rightarrow> nat \<Rightarrow> 'a \<Rightarrow> error + 'a list" where
  "wr xs k v = (if k < length xs then Inr (xs[k := v]) else Inl (OutOfBounds k))"

definition bindE :: "error + 'a \<Rightarrow> ('a \<Rightarrow> error + 'b) \<Rightarrow> error + 'b" where
  "bindE m g = (case m of Inl e \<Rightarrow> Inl e | Inr x \<Rightarrow> g x)"

text \<open>\<^verbatim>\<open>State\<close> of app/spectrum.h.\<close>

datatype State = SPECTRUM | FREQ_INPUT | STILL

text \<open>The enumerators of \<^verbatim>\<open>StepsCount\<close>: \<^verbatim>\<open>GetStepsCount\<close> returns
  \<^verbatim>\<open>128 >> settings.stepsCount\<close>, so \<^verbatim>\<open>STEPS_n\<close> is the shift that gives \<open>n\<close>.\<close>

definition STEPS_128 :: nat where "STEPS_128 = 0"
definition STEPS_64 :: nat where "STEPS_64 = 1"
definition STEPS_32 :: nat where "STEPS_32 = 2"
definition STEPS_16 :: nat where "STEPS_16 = 3"

section \<open>The build and the board\<close>

text \<open>What spectrum.c takes from the rest of the firmware: the preprocessor switches, the
  tables and limits of other translation units, the scan range set by the channel scanner
  (\<^verbatim>\<open>gScanRangeStart\<close>, \<^verbatim>\<open>gScanRangeStop\<close>, never written by spectrum.c) and the
  values the receiver returns. \<open>dBmCorr\<close> stands for \<^verbatim>\<open>dBmCorrTable[gRxVfo->Band]\<close>,
  \<open>tailInterruptMask\<close> for \<^verbatim>\<open>BK4819_REG_02_CxCSS_TAIL | BK4819_REG_02_SQUELCH_FOUND\<close>;
  \<open>hw_rssi k\<close> is the value the \<open>k\<close>-th call of \<^verbatim>\<open>GetRssi\<close> returns once the glitch
  register lets it through (with the AM-fix gain already added).\<close>

record board =
  ENABLE_SCAN_RANGES :: bool
  ENABLE_FEAT_F4HWN_SPECTRUM :: bool
  SPECTRUM_AUTOMATIC_SQUELCH :: bool
  scanStepValues :: "nat \<Rightarrow> u16"
  scanStepBWRegValues :: "nat \<Rightarrow> u16"
  listenBWRegValues :: "nat \<Rightarrow> u16"
  S_STEP_2_5kHz :: nat
  F_MIN :: u32
  F_MAX :: u32
  dBmCorr :: int
  tailInterruptMask :: u16
  MODULATION_AM :: nat
  gScanRangeStart :: u32
  gScanRangeStop :: u32
  hw_rssi :: "nat \<Rightarrow> u16"

section \<open>The module state\<close>

text \<open>\<^verbatim>\<open>PeakInfo peak\<close>: fields \<^verbatim>\<open>t, rssi, f, i\<close>.\<close>

record PeakInfo =
  pk_t :: u16
  pk_rssi :: u16
  pk_f :: u32
  pk_i :: u16

text \<open>\<^verbatim>\<open>ScanInfo scanInfo\<close>: fields \<^verbatim>\<open>rssi, rssiMin, rssiMax, i, iPeak, f, fPeak,
  scanStep, measurementsCount\<close>.\<close>

record ScanInfo =
  si_rssi :: u16
  si_rssiMin :: u16
  si_rssiMax :: u16
  si_i :: u16
  si_iPeak :: u16
  si_f :: u32
  si_fPeak :: u32
  si_scanStep :: u16
  si_measurementsCount :: u16

text \<open>\<^verbatim>\<open>SpectrumSettings settings\<close>. The enumerations are kept as their numbers.\<close>

record SpectrumSettings =
  frequencyChangeStep :: u32
  stepsCount :: nat
  scanStepIndex :: nat
  scanDelay :: u16
  rssiTriggerLevel :: u16
  bw :: nat
  listenBw :: nat
  dbMin :: int
  dbMax :: int
  modulationType :: nat
  backlightState :: bool

text \<open>Calls into the drivers, in the order they are made.\<close>

datatype hw_event =
    SetFrequency u32
  | PickRXFilterPath u32
  | WriteRegister nat u16
  | SetupAGC bool bool
  | ToggleGpioOut_GREEN bool
  | AudioPathOn
  | AudioPathOff

text \<open>The file-scope variables of spectrum.c. \<open>regs\<close> is the BK4819 register file as
  \<^verbatim>\<open>BK4819_ReadRegister\<close> and \<^verbatim>\<open>BK4819_WriteRegister\<close> see it, \<open>hw\<close> the driver calls
  made so far (latest first) and \<open>n_samples\<close> the number of RSSI samples taken.\<close>

record state =
  isListening :: bool
  monitorMode :: bool
  redrawStatus :: bool
  redrawScreen :: bool
  newScanStart :: bool
  preventKeypress :: bool
  audioState :: bool
  lockAGC :: bool
  currentState :: State
  previousState :: State
  peak :: PeakInfo
  scanInfo :: ScanInfo
  settings :: SpectrumSettings
  blacklistFreqs :: "u16 list"
  blacklistFreqsIdx :: u8
  fMeasure :: u32
  currentFreq :: u32
  tempFreq :: u32
  rssiHistory :: "u16 list"
  spectrum_peaks :: "u16 list"
  spectrum_peak_age :: "u8 list"
  spectrum_smoothed :: "u16 list"
  waterfall_rows :: "u8 list list"
  waterfall_phase :: u8
  waterfall_scan_count :: u16
  freqInputIndex :: u8
  freqInputDotIndex :: u8
  freqInputArr :: "nat list"
  freqInputString :: "char list"
  listenT :: u16
  regs :: "nat \<Rightarrow> u16"
  hw :: "hw_event list"
  n_samples :: nat

section \<open>Utility and radio functions\<close>

text \<open>\<^verbatim>\<open>static int clamp(int v, int min, int max)\<close>\<close>

definition clamp :: "int \<Rightarrow> int \<Rightarrow> int \<Rightarrow> int" where
  "clamp v lo hi = (if v \<le> lo then lo else (if v \<ge> hi then hi else v))"

text \<open>\<^verbatim>\<open>static int Rssi2DBm(uint16_t rssi)\<close>\<close>

definition Rssi2DBm :: "board \<Rightarrow> u16 \<Rightarrow> int" where
  "Rssi2DBm b rssi = (uint rssi div 2) - 160 + dBmCorr b"

definition SetState :: "State \<Rightarrow> state \<Rightarrow> state" where
  "SetState st s =
     s\<lparr>previousState := currentState s, currentState := st,
       redrawScreen := True, redrawStatus := True\<rparr>"

definition BK4819_ReadRegister :: "nat \<Rightarrow> state \<Rightarrow> u16" where
  "BK4819_ReadRegister r s = regs s r"

definition BK4819_WriteRegister :: "nat \<Rightarrow> u16 \<Rightarrow> state \<Rightarrow> state" where
  "BK4819_WriteRegister r v s = s\<lparr>regs := (regs s)(r := v), hw := WriteRegister r v # hw s\<rparr>"

definition driver :: "hw_event \<Rightarrow> state \<Rightarrow> state" where
  "driver e s = s\<lparr>hw := e # hw s\<rparr>"

text \<open>\<^verbatim>\<open>ToggleAFBit\<close>: bit 8 of register 0x47.\<close>

definition ToggleAFBit :: "bool \<Rightarrow> state \<Rightarrow> state" where
  "ToggleAFBit on s =
     (let reg = BK4819_ReadRegister 0x47 s AND NOT (push_bit 8 1);
          reg = (if on then reg OR push_bit 8 1 else reg)
      in BK4819_WriteRegister 0x47 reg s)"

text \<open>\<^verbatim>\<open>ToggleAFDAC\<close>: bit 9 of register 0x30 (read into a \<^verbatim>\<open>uint32_t\<close>, written back as
  16 bits).\<close>

definition ToggleAFDAC :: "bool \<Rightarrow> state \<Rightarrow> state" where
  "ToggleAFDAC on s =
     (let Reg = BK4819_ReadRegister 0x30 s AND NOT (push_bit 9 1);
          Reg = (if on then Reg OR push_bit 9 1 else Reg)
      in BK4819_WriteRegister 0x30 Reg s)"

definition SetF :: "u32 \<Rightarrow> state \<Rightarrow> state" where
  "SetF f s =
     (let s = s\<lparr>fMeasure := f\<rparr>;
          s = driver (SetFrequency f) s;
          s = driver (PickRXFilterPath f) s;
          reg = BK4819_ReadRegister 0x30 s;
          s = BK4819_WriteRegister 0x30 0 s
      in BK4819_WriteRegister 0x30 reg s)"

section \<open>Spectrum related\<close>

definition IsPeakOverLevel :: "state \<Rightarrow> bool" where
  "IsPeakOverLevel s = (pk_rssi (peak s) \<ge> rssiTriggerLevel (settings s))"

definition ResetPeak :: "state \<Rightarrow> state" where
  "ResetPeak s = s\<lparr>peak := (peak s)\<lparr>pk_t := 0, pk_rssi := 0\<rparr>\<rparr>"

definition IsCenterMode :: "board \<Rightarrow> state \<Rightarrow> bool" where
  "IsCenterMode b s = (scanStepIndex (settings s) < S_STEP_2_5kHz b)"

definition GetScanStep :: "board \<Rightarrow> state \<Rightarrow> u16" where
  "GetScanStep b s = scanStepValues b (scanStepIndex (settings s))"

text \<open>\<^verbatim>\<open>uint16_t GetStepsCount()\<close>. With a scan range, \<^verbatim>\<open>range / step\<close> is a 32-bit
  division (a step of 0 traps on the target; no entry of the step table is 0) and the
  result is cut to 16 bits by the return type.\<close>

definition GetStepsCount :: "board \<Rightarrow> state \<Rightarrow> u16" where
  "GetStepsCount b s =
     (if ENABLE_SCAN_RANGES b \<and> gScanRangeStart b \<noteq> 0 then
        (let range = gScanRangeStop b - gScanRangeStart b;
             step = GetScanStep b s
         in ucast ((range div ucast step) + 1))
      else drop_bit (stepsCount (settings s)) 128)"

text \<open>\<^verbatim>\<open>uint32_t GetBW() { return GetStepsCount() * GetScanStep(); }\<close>: both operands are
  promoted to \<^verbatim>\<open>int\<close>, the product is returned as \<^verbatim>\<open>uint32_t\<close>.\<close>

definition GetBW :: "board \<Rightarrow> state \<Rightarrow> u32" where
  "GetBW b s = ucast (GetStepsCount b s) * ucast (GetScanStep b s)"

definition GetFStart :: "board \<Rightarrow> state \<Rightarrow> u32" where
  "GetFStart b s =
     (if IsCenterMode b s then currentFreq s - drop_bit 1 (GetBW b s) else currentFreq s)"

definition GetFEnd :: "board \<Rightarrow> state \<Rightarrow> u32" where
  "GetFEnd b s =
     (if ENABLE_SCAN_RANGES b \<and> gScanRangeStart b \<noteq> 0 then gScanRangeStop b
      else currentFreq s + GetBW b s)"

definition TuneToPeak :: "state \<Rightarrow> state" where
  "TuneToPeak s =
     (let s = s\<lparr>scanInfo := (scanInfo s)\<lparr>si_f := pk_f (peak s), si_rssi := pk_rssi (peak s),
                                          si_i := pk_i (peak s)\<rparr>\<rparr>
      in SetF (si_f (scanInfo s)) s)"

text \<open>\<^verbatim>\<open>uint8_t GetBWRegValueForScan()\<close>: the return type keeps the low byte of the table
  entry.\<close>

definition GetBWRegValueForScan :: "board \<Rightarrow> state \<Rightarrow> u8" where
  "GetBWRegValueForScan b s = ucast (scanStepBWRegValues b (scanStepIndex (settings s)))"

text \<open>\<^verbatim>\<open>GetRssi\<close>: the busy-wait on the glitch register and the read of the RSSI register
  belong to the receiver; the model takes the next value of \<open>hw_rssi\<close>.\<close>

definition GetRssi :: "board \<Rightarrow> state \<Rightarrow> u16 \<times> state" where
  "GetRssi b s = (hw_rssi b (n_samples s), s\<lparr>n_samples := Suc (n_samples s)\<rparr>)"

definition ToggleAudio :: "bool \<Rightarrow> state \<Rightarrow> state" where
  "ToggleAudio on s =
     (if on = audioState s then s
      else driver (if on then AudioPathOn else AudioPathOff) (s\<lparr>audioState := on\<rparr>))"

text \<open>\<^verbatim>\<open>ToggleRX\<close>; with the F4HWN build it returns at once when the receiver is already
  in the requested state, and arms the tail interrupt (register 0x3F) when it turns on.\<close>

definition ToggleRX :: "board \<Rightarrow> bool \<Rightarrow> state \<Rightarrow> state" where
  "ToggleRX b on s =
     (if ENABLE_FEAT_F4HWN_SPECTRUM b \<and> isListening s = on then s
      else
        (let s = s\<lparr>isListening := on\<rparr>;
             s = driver (SetupAGC (modulationType (settings s) = MODULATION_AM b) (lockAGC s)) s;
             s = driver (ToggleGpioOut_GREEN on) s;
             s = ToggleAudio on s;
             s = ToggleAFDAC on s;
             s = ToggleAFBit on s
         in if on then
              (if ENABLE_FEAT_F4HWN_SPECTRUM b then
                 (let s = s\<lparr>listenT := 100\<rparr>;
                      s = BK4819_WriteRegister 0x43 (listenBWRegValues b (listenBw (settings s))) s
                  in BK4819_WriteRegister 0x3F (tailInterruptMask b) s)
               else
                 (let s = s\<lparr>listenT := 1000\<rparr>
                  in BK4819_WriteRegister 0x43 (listenBWRegValues b (listenBw (settings s))) s))
            else BK4819_WriteRegister 0x43 (ucast (GetBWRegValueForScan b s)) s))"

section \<open>Scan info\<close>

text \<open>\<^verbatim>\<open>ResetScanStats\<close>: besides the statistics of the pass it refills the peak-hold
  buffers and clears the waterfall buffer, its phase and its counter.\<close>

definition ResetScanStats :: "state \<Rightarrow> state" where
  "ResetScanStats s =
     s\<lparr>scanInfo := (scanInfo s)\<lparr>si_rssi := 0, si_rssiMax := 0, si_iPeak := 0, si_fPeak := 0\<rparr>,
       spectrum_peaks := replicate 128 0xFFFF,
       spectrum_peak_age := replicate 128 0,
       waterfall_rows := replicate 16 (replicate 16 0),
       waterfall_phase := 0,
       waterfall_scan_count := 0\<rparr>"

definition InitScan :: "board \<Rightarrow> state \<Rightarrow> state" where
  "InitScan b s =
     (let s = ResetScanStats s;
          s = s\<lparr>scanInfo := (scanInfo s)\<lparr>si_i := 0\<rparr>\<rparr>;
          s = s\<lparr>scanInfo := (scanInfo s)\<lparr>si_f := GetFStart b s\<rparr>\<rparr>;
          s = s\<lparr>scanInfo := (scanInfo s)\<lparr>si_scanStep := GetScanStep b s\<rparr>\<rparr>
      in s\<lparr>scanInfo := (scanInfo s)\<lparr>si_measurementsCount := GetStepsCount b s\<rparr>\<rparr>)"

text \<open>\<^verbatim>\<open>ResetBlacklist\<close>: every sentinel entry of the history becomes 0; with scan ranges
  the list of blacklisted indices is emptied as well.\<close>

definition ResetBlacklist :: "board \<Rightarrow> state \<Rightarrow> state" where
  "ResetBlacklist b s =
     (let s = s\<lparr>rssiHistory := map (\<lambda>v. if v = RSSI_MAX_VALUE then 0 else v) (rssiHistory s)\<rparr>
      in if ENABLE_SCAN_RANGES b
         then s\<lparr>blacklistFreqs := replicate 15 0, blacklistFreqsIdx := 0\<rparr>
         else s)"

definition RelaunchScan :: "board \<Rightarrow> state \<Rightarrow> state" where
  "RelaunchScan b s =
     (let s = InitScan b s;
          s = ResetPeak s;
          s = ToggleRX b False s;
          s = (if SPECTRUM_AUTOMATIC_SQUELCH b
               then s\<lparr>settings := (settings s)\<lparr>rssiTriggerLevel := RSSI_MAX_VALUE\<rparr>\<rparr>
               else s);
          s = s\<lparr>preventKeypress := True\<rparr>
      in s\<lparr>scanInfo := (scanInfo s)\<lparr>si_rssiMin := RSSI_MAX_VALUE\<rparr>\<rparr>)"

definition UpdateScanInfo :: "board \<Rightarrow> state \<Rightarrow> state" where
  "UpdateScanInfo b s =
     (let s = (if si_rssi (scanInfo s) > si_rssiMax (scanInfo s)
               then s\<lparr>scanInfo := (scanInfo s)\<lparr>si_rssiMax := si_rssi (scanInfo s),
                                                si_fPeak := si_f (scanInfo s),
                                                si_iPeak := si_i (scanInfo s)\<rparr>\<rparr>
               else s)
      in if si_rssi (scanInfo s) < si_rssiMin (scanInfo s)
         then (let s = s\<lparr>scanInfo := (scanInfo s)\<lparr>si_rssiMin := si_rssi (scanInfo s)\<rparr>\<rparr>
               in s\<lparr>settings := (settings s)\<lparr>dbMin := Rssi2DBm b (si_rssiMin (scanInfo s))\<rparr>,
                    redrawStatus := True\<rparr>)
         else s)"

text \<open>\<^verbatim>\<open>AutoTriggerLevel\<close>: \<^verbatim>\<open>scanInfo.rssiMax + 8\<close> is computed in \<^verbatim>\<open>int\<close>, clamped, and
  stored back into the 16-bit trigger level.\<close>

definition AutoTriggerLevel :: "state \<Rightarrow> state" where
  "AutoTriggerLevel s =
     (if rssiTriggerLevel (settings s) = RSSI_MAX_VALUE
      then s\<lparr>settings := (settings s)
                \<lparr>rssiTriggerLevel :=
                   word_of_int (clamp (uint (si_rssiMax (scanInfo s)) + 8) 0 (uint RSSI_MAX_VALUE))\<rparr>\<rparr>
      else s)"

definition UpdatePeakInfoForce :: "state \<Rightarrow> state" where
  "UpdatePeakInfoForce s =
     AutoTriggerLevel
       (s\<lparr>peak := (peak s)\<lparr>pk_t := 0, pk_rssi := si_rssiMax (scanInfo s),
                            pk_f := si_fPeak (scanInfo s), pk_i := si_iPeak (scanInfo s)\<rparr>\<rparr>)"

definition UpdatePeakInfo :: "state \<Rightarrow> state" where
  "UpdatePeakInfo s =
     (if pk_f (peak s) = 0 \<or> pk_t (peak s) \<ge> 1024 \<or> pk_rssi (peak s) < si_rssiMax (scanInfo s)
      then UpdatePeakInfoForce s else s)"

text \<open>\<^verbatim>\<open>SetRssiHistory\<close>. With scan ranges and more than 128 measurements the index is
  folded: \<^verbatim>\<open>(uint32_t)128 * 1000 / measurementsCount * idx / 1000\<close>, evaluated left to
  right in 32 bits and stored in a \<^verbatim>\<open>uint8_t\<close>; the slot is overwritten when it holds
  less or the receiver is listening, and the following slot is zeroed.\<close>

definition fold_index :: "u16 \<Rightarrow> u16 \<Rightarrow> u8" where
  "fold_index mc idx = ucast (((128 * 1000) div (ucast mc :: u32)) * ucast idx div 1000)"

definition SetRssiHistory :: "board \<Rightarrow> u16 \<Rightarrow> u16 \<Rightarrow> state \<Rightarrow> error + state" where
  "SetRssiHistory b idx rssi s =
     (if ENABLE_SCAN_RANGES b \<and> si_measurementsCount (scanInfo s) > 128 then
        (let i = unat (fold_index (si_measurementsCount (scanInfo s)) idx) in
         bindE (rd (rssiHistory s) i) (\<lambda>old.
         bindE (if old < rssi \<or> isListening s then wr (rssiHistory s) i rssi
                else Inr (rssiHistory s)) (\<lambda>h.
         bindE (wr h ((i + 1) mod 128) 0) (\<lambda>h.
         Inr (s\<lparr>rssiHistory := h\<rparr>)))))
      else bindE (wr (rssiHistory s) (unat idx) rssi) (\<lambda>h. Inr (s\<lparr>rssiHistory := h\<rparr>)))"

definition Measure :: "board \<Rightarrow> state \<Rightarrow> error + state" where
  "Measure b s =
     (let (rssi, s) = GetRssi b s;
          s = s\<lparr>scanInfo := (scanInfo s)\<lparr>si_rssi := rssi\<rparr>\<rparr>
      in SetRssiHistory b (si_i (scanInfo s)) rssi s)"

section \<open>Update things by keypress\<close>

text \<open>\<^verbatim>\<open>ToggleStepsCount\<close>\<close>

definition ToggleStepsCount :: "board \<Rightarrow> state \<Rightarrow> state" where
  "ToggleStepsCount b s =
     (let s = (if stepsCount (settings s) = STEPS_128
               then s\<lparr>settings := (settings s)\<lparr>stepsCount := STEPS_16\<rparr>\<rparr>
               else s\<lparr>settings := (settings s)\<lparr>stepsCount := stepsCount (settings s) - 1\<rparr>\<rparr>);
          s = s\<lparr>settings := (settings s)\<lparr>frequencyChangeStep := drop_bit 1 (GetBW b s)\<rparr>\<rparr>;
          s = RelaunchScan b s;
          s = ResetBlacklist b s
      in s\<lparr>redrawScreen := True\<rparr>)"

text \<open>\<^verbatim>\<open>IsBlacklisted\<close> (scan ranges only)\<close>

definition IsBlacklisted :: "u16 \<Rightarrow> state \<Rightarrow> bool" where
  "IsBlacklisted idx s = (blacklistFreqsIdx s \<noteq> 0 \<and> List.member (blacklistFreqs s) idx)"

definition Blacklist :: "board \<Rightarrow> state \<Rightarrow> error + state" where
  "Blacklist b s =
     (let s = (if ENABLE_SCAN_RANGES b
               then s\<lparr>blacklistFreqs := (blacklistFreqs s)[unat (blacklistFreqsIdx s) mod 15 := pk_i (peak s)],
                      blacklistFreqsIdx := blacklistFreqsIdx s + 1\<rparr>
               else s)
      in bindE (SetRssiHistory b (pk_i (peak s)) RSSI_MAX_VALUE s) (\<lambda>s.
         Inr (ResetScanStats (ToggleRX b False (ResetPeak s)))))"

section \<open>Frequency input\<close>

text \<open>\<^verbatim>\<open>KEY_Code_t\<close> of driver/keyboard.h. The digits come first, \<^verbatim>\<open>KEY_0\<close> to \<^verbatim>\<open>KEY_9\<close>
  with the values 0 to 9, which is all spectrum.c relies on (\<^verbatim>\<open>digitKey <= KEY_9\<close>,
  \<^verbatim>\<open>digitKey - KEY_0\<close>); \<open>key_num\<close> gives the value of an enumerator.\<close>

datatype KEY_Code =
    KEY_0 | KEY_1 | KEY_2 | KEY_3 | KEY_4 | KEY_5 | KEY_6 | KEY_7 | KEY_8 | KEY_9
  | KEY_MENU | KEY_UP | KEY_DOWN | KEY_EXIT | KEY_STAR | KEY_F
  | KEY_PTT | KEY_SIDE2 | KEY_SIDE1 | KEY_INVALID

fun key_num :: "KEY_Code \<Rightarrow> nat" where
  "key_num KEY_0 = 0" | "key_num KEY_1 = 1" | "key_num KEY_2 = 2" | "key_num KEY_3 = 3"
| "key_num KEY_4 = 4" | "key_num KEY_5 = 5" | "key_num KEY_6 = 6" | "key_num KEY_7 = 7"
| "key_num KEY_8 = 8" | "key_num KEY_9 = 9" | "key_num KEY_MENU = 10" | "key_num KEY_UP = 11"
| "key_num KEY_DOWN = 12" | "key_num KEY_EXIT = 13" | "key_num KEY_STAR = 14"
| "key_num KEY_F = 15" | "key_num KEY_PTT = 16" | "key_num KEY_SIDE2 = 17"
| "key_num KEY_SIDE1 = 18" | "key_num KEY_INVALID = 19"

definition ResetFreqInput :: "state \<Rightarrow> state" where
  "ResetFreqInput s =
     s\<lparr>tempFreq := 0,
       freqInputString := replicate 10 CHR ''-'' @ drop 10 (freqInputString s)\<rparr>"

definition FreqInput :: "state \<Rightarrow> state" where
  "FreqInput s = SetState FREQ_INPUT (ResetFreqInput (s\<lparr>freqInputIndex := 0, freqInputDotIndex := 0\<rparr>))"

text \<open>The two loops of \<^verbatim>\<open>UpdateFreqInput\<close> that add the digits to \<^verbatim>\<open>tempFreq\<close>: the integer
  part from the digit before the dot downwards (\<^verbatim>\<open>base *= 10\<close>), the fraction from the
  digit after the dot upwards (\<^verbatim>\<open>base /= 10\<close>). The accumulator is \<open>(tempFreq, base)\<close>.\<close>

fun add_digits :: "nat list \<Rightarrow> bool \<Rightarrow> nat list \<Rightarrow> u32 \<times> u32 \<Rightarrow> error + (u32 \<times> u32)" where
  "add_digits arr up [] acc = Inr acc"
| "add_digits arr up (i # is) (tf, base) =
     bindE (rd arr i) (\<lambda>k.
       add_digits arr up is
         (tf + of_nat k * base, if up then base * 10 else base div 10))"

definition UpdateFreqInput :: "KEY_Code \<Rightarrow> state \<Rightarrow> error + state" where
  "UpdateFreqInput key s =
     (if key \<noteq> KEY_EXIT \<and> freqInputIndex s \<ge> 10 then Inr s
      else if key = KEY_STAR \<and> (freqInputIndex s = 0 \<or> freqInputDotIndex s \<noteq> 0) then Inr s
      else
        (let s = (if key = KEY_STAR then s\<lparr>freqInputDotIndex := freqInputIndex s\<rparr> else s) in
         bindE
           (if key = KEY_EXIT then
              (let s = s\<lparr>freqInputIndex := freqInputIndex s - 1\<rparr>
               in Inr (if freqInputDotIndex s = freqInputIndex s
                       then s\<lparr>freqInputDotIndex := 0\<rparr> else s))
            else
              bindE (wr (freqInputArr s) (unat (freqInputIndex s)) (key_num key)) (\<lambda>arr.
                Inr (s\<lparr>freqInputArr := arr, freqInputIndex := freqInputIndex s + 1\<rparr>)))
           (\<lambda>s.
              (let s = ResetFreqInput s;
                   n = unat (freqInputIndex s);
                   dotIndex = (if freqInputDotIndex s = 0 then n else unat (freqInputDotIndex s));
                   str = map (\<lambda>i. if i < n
                                    then (let digitKey = freqInputArr s ! i in
                                          if digitKey \<le> key_num KEY_9
                                          then char_of (48 + digitKey - key_num KEY_0)
                                          else CHR ''.'')
                                    else CHR ''-'') [0..<10];
                   s = s\<lparr>freqInputString := str @ drop 10 (freqInputString s)\<rparr>
               in bindE (add_digits (freqInputArr s) True (rev [0..<dotIndex])
                           (tempFreq s, 100000)) (\<lambda>(tf, _).
                  bindE (if dotIndex < n
                         then add_digits (freqInputArr s) False [dotIndex + 1..<n] (tf, 10000)
                         else Inr (tf, 10000)) (\<lambda>(tf, _).
                  Inr (s\<lparr>tempFreq := tf, redrawScreen := True\<rparr>)))))))"

text \<open>\<^verbatim>\<open>OnKeyDownFreqInput\<close>\<close>

definition OnKeyDownFreqInput :: "board \<Rightarrow> KEY_Code \<Rightarrow> state \<Rightarrow> error + state" where
  "OnKeyDownFreqInput b key s =
     (if key \<in> {KEY_0, KEY_1, KEY_2, KEY_3, KEY_4, KEY_5, KEY_6, KEY_7, KEY_8, KEY_9, KEY_STAR}
      then UpdateFreqInput key s
      else if key = KEY_EXIT then
        (if freqInputIndex s = 0 then Inr (SetState (previousState s) s)
         else UpdateFreqInput key s)
      else if key = KEY_MENU then
        (if tempFreq s < F_MIN b \<or> tempFreq s > F_MAX b then Inr s
         else
           (let s = SetState (previousState s) s;
                s = s\<lparr>currentFreq := tempFreq s\<rparr>
            in if currentState s = SPECTRUM
               then Inr (RelaunchScan b (ResetBlacklist b s))
               else Inr (SetF (currentFreq s) s)))
      else Inr s)"

section \<open>Smoothing and the waterfall\<close>

text \<open>One step of the inner loop of \<^verbatim>\<open>SmoothSpectrum\<close>: neighbour \<open>i + j\<close> is added to
  \<open>(sum, count)\<close> when it lies in \<open>[0, bars)\<close> and holds neither the sentinel nor 0.\<close>

definition smooth_add :: "u16 list \<Rightarrow> nat \<Rightarrow> nat \<Rightarrow> int \<Rightarrow> u32 \<times> u8 \<Rightarrow> u32 \<times> u8" where
  "smooth_add sm bars i j acc =
     (let idx = int i + j in
      if idx \<ge> 0 \<and> idx < int bars then
        (let val = sm ! nat idx in
         if val \<noteq> RSSI_MAX_VALUE \<and> val > 0 then (fst acc + ucast val, snd acc + 1) else acc)
      else acc)"

definition smooth_bin :: "u16 list \<Rightarrow> nat \<Rightarrow> nat \<Rightarrow> u16" where
  "smooth_bin sm bars i =
     (let (sum, count) = fold (smooth_add sm bars i) [-3, -2, -1, 0, 1, 2, 3] (0, 0)
      in if count > 0 then ucast (sum div ucast count) else RSSI_MAX_VALUE)"

text \<open>\<^verbatim>\<open>SmoothSpectrum(bars)\<close>. The three buffers have 128 entries, so a call with more than
  128 bars writes \<^verbatim>\<open>spectrum_smoothed[128]\<close>; up to 128 bars the history is read at \<open>i\<close>
  itself. \<open>temp\<close> is the local array (its entries from \<open>bars\<close> on are never read).\<close>

definition SmoothSpectrum :: "u16 \<Rightarrow> state \<Rightarrow> error + state" where
  "SmoothSpectrum bars s =
     (if bars > 128 then Inl (OutOfBounds 128)
      else
        (let n = unat bars;
             sm = fold (\<lambda>i sm. sm[i := rssiHistory s ! i]) [0..<n] (spectrum_smoothed s);
             temp = fold (\<lambda>i t. t[i := smooth_bin sm n i]) [0..<n] (replicate 128 0);
             sm = fold (\<lambda>i sm. sm[i := temp ! i]) [0..<n] sm
         in Inr (s\<lparr>spectrum_smoothed := sm\<rparr>)))"

definition gBayer4x4 :: "u8 list list" where
  "gBayer4x4 = [[0, 8, 2, 10], [12, 4, 14, 6], [3, 11, 1, 9], [15, 7, 13, 5]]"

text \<open>Division of \<^verbatim>\<open>int\<close> in C truncates towards zero.\<close>

definition c_div :: "int \<Rightarrow> int \<Rightarrow> int" where
  "c_div a d = (if (a < 0) = (d < 0) then \<bar>a\<bar> div \<bar>d\<bar> else - (\<bar>a\<bar> div \<bar>d\<bar>))"

text \<open>The row shift of \<^verbatim>\<open>Waterfall_AddLine\<close>: \<^verbatim>\<open>for (r = 15; r > 0; --r) rows[r] = rows[r - 1]\<close>.\<close>

definition waterfall_shift :: "u8 list list \<Rightarrow> u8 list list" where
  "waterfall_shift rows = fold (\<lambda>r rows. rows[r := rows ! (r - 1)]) (rev [1..<16]) rows"

text \<open>Column \<open>x\<close> of the new top row.\<close>

definition waterfall_pixel :: "board \<Rightarrow> state \<Rightarrow> nat \<Rightarrow> u8 list \<Rightarrow> u8 list" where
  "waterfall_pixel b s x row =
     (let rssi = rssiHistory s ! x in
      if rssi = RSSI_MAX_VALUE then row
      else
        (let dbm = Rssi2DBm b rssi;
             dbmin = dbMin (settings s);
             dbmax = dbMax (settings s);
             dbmax = (if dbmax \<le> dbmin then dbmin + 1 else dbmax);
             lev = c_div ((dbm - dbmin) * 15) (dbmax - dbmin + 1);
             lev = (if lev < 0 then 0 else lev);
             lev = (if lev > 15 then 15 else lev);
             bx = x mod 4;
             by = unat (waterfall_phase s AND 3)
         in if (word_of_int lev :: u8) > gBayer4x4 ! by ! bx
            then row[x div 8 := row ! (x div 8) OR push_bit (x mod 8) 1]
            else row))"

definition Waterfall_AddLine :: "board \<Rightarrow> state \<Rightarrow> state" where
  "Waterfall_AddLine b s =
     (let s = s\<lparr>waterfall_rows := waterfall_shift (waterfall_rows s)\<rparr>;
          s = s\<lparr>waterfall_phase := (waterfall_phase s + 1) AND 3,
                waterfall_scan_count := waterfall_scan_count s + 1\<rparr>;
          row = fold (waterfall_pixel b s) [0..<128] (replicate 16 0)
      in s\<lparr>waterfall_rows := (waterfall_rows s)[0 := row]\<rparr>)"

section \<open>The scan loop\<close>

definition Scan :: "board \<Rightarrow> state \<Rightarrow> error + state" where
  "Scan b s =
     bindE (rd (rssiHistory s) (unat (si_i (scanInfo s)))) (\<lambda>h.
       if h \<noteq> RSSI_MAX_VALUE \<and> \<not> (ENABLE_SCAN_RANGES b \<and> IsBlacklisted (si_i (scanInfo s)) s)
       then bindE (Measure b (SetF (si_f (scanInfo s)) s)) (\<lambda>s. Inr (UpdateScanInfo b s))
       else Inr s)"

definition NextScanStep :: "state \<Rightarrow> state" where
  "NextScanStep s =
     s\<lparr>peak := (peak s)\<lparr>pk_t := pk_t (peak s) + 1\<rparr>,
       scanInfo := (scanInfo s)\<lparr>si_i := si_i (scanInfo s) + 1,
                                 si_f := si_f (scanInfo s) + ucast (si_scanStep (scanInfo s))\<rparr>\<rparr>"

text \<open>The \<^verbatim>\<open>memset\<close> of \<^verbatim>\<open>UpdateScan\<close> that clears the unused bins:
  \<^verbatim>\<open>memset(&rssiHistory[measurementsCount], 0, sizeof(rssiHistory) - measurementsCount * 2)\<close>.
  The length is a \<^verbatim>\<open>size_t\<close>: with more than 128 measurements it wraps around and the call
  writes from \<^verbatim>\<open>rssiHistory[measurementsCount]\<close> onwards, beyond the array.\<close>

definition clear_unused_bins :: "state \<Rightarrow> error + state" where
  "clear_unused_bins s =
     (let k = unat (si_measurementsCount (scanInfo s)); h = rssiHistory s in
      if k \<le> length h then Inr (s\<lparr>rssiHistory := take k h @ replicate (length h - k) 0\<rparr>)
      else Inl (OutOfBounds k))"

text \<open>The part of \<^verbatim>\<open>UpdateScan\<close> that runs once the bin index has reached the measurement
  count, from the clearing of the unused bins to the end of the function.\<close>

definition UpdateScan_finish :: "board \<Rightarrow> state \<Rightarrow> error + state" where
  "UpdateScan_finish b s =
     bindE (clear_unused_bins s) (\<lambda>s.
       (let s = s\<lparr>redrawScreen := True, preventKeypress := False\<rparr>;
            s = s\<lparr>spectrum_peaks := replicate 128 0xFFFF,
                  spectrum_peak_age := replicate 128 0\<rparr>;
            s = UpdatePeakInfo s
        in if IsPeakOverLevel s then Inr (TuneToPeak (ToggleRX b True s))
           else Inr ((Waterfall_AddLine b s)\<lparr>newScanStart := True\<rparr>)))"

definition UpdateScan :: "board \<Rightarrow> state \<Rightarrow> error + state" where
  "UpdateScan b s =
     bindE (Scan b s) (\<lambda>s.
       if si_i (scanInfo s) < si_measurementsCount (scanInfo s) then Inr (NextScanStep s)
       else UpdateScan_finish b s)"

text \<open>\<^verbatim>\<open>Tick\<close> on the path it takes while the sweep runs: the state is \<^verbatim>\<open>SPECTRUM\<close>, the
  receiver is not listening and no key is dispatched. A requested pass is initialised,
  then \<^verbatim>\<open>UpdateScan\<close> handles one bin. Left out are the half-second peak check, which runs
  only in a sweep over more than 128 steps (\<^verbatim>\<open>UpdatePeakInfo\<close>, and \<^verbatim>\<open>ToggleRX\<close> with
  \<^verbatim>\<open>TuneToPeak\<close> when the peak is over the level), and the status line and redraw at the end
  of the tick, which clear the redraw flags and rebuild the display buffers; none of them
  writes the history, the waterfall or \<^verbatim>\<open>newScanStart\<close>.\<close>

definition Tick_scan :: "board \<Rightarrow> state \<Rightarrow> error + state" where
  "Tick_scan b s =
     (let s = (if newScanStart s then (InitScan b s)\<lparr>newScanStart := False\<rparr> else s)
      in UpdateScan b s)"

section \<open>A concrete board and the initial state\<close>

text \<open>An example board for the concrete evaluations below: all three build switches on, a
  step table in units of 10 Hz whose first four entries are the centre-mode steps, the band
  limits 18 MHz and 1300 MHz, and a receiver that reports the RSSI 100 at every sample.\<close>

definition board0 :: board where
  "board0 =
     \<lparr>ENABLE_SCAN_RANGES = True, ENABLE_FEAT_F4HWN_SPECTRUM = True,
      SPECTRUM_AUTOMATIC_SQUELCH = True,
      scanStepValues = (\<lambda>k. [1, 10, 50, 100, 250, 500, 625, 833, 1000, 1250, 1500, 2000,
                               2500, 5000, 10000] ! k),
      scanStepBWRegValues = (\<lambda>k. 0), listenBWRegValues = (\<lambda>k. 0),
      S_STEP_2_5kHz = 4, F_MIN = 1800000, F_MAX = 130000000, dBmCorr = 0,
      tailInterruptMask = 0, MODULATION_AM = 1,
      gScanRangeStart = 0, gScanRangeStop = 0, hw_rssi = (\<lambda>k. 100)\<rparr>"

text \<open>The variables as their initialisers in spectrum.c leave them (step index 12 is the
  25 kHz step of \<open>board0\<close>); what has no initialiser is zero.\<close>

definition state0 :: state where
  "state0 =
     \<lparr>isListening = True, monitorMode = False, redrawStatus = True, redrawScreen = False,
      newScanStart = True, preventKeypress = True, audioState = True, lockAGC = False,
      currentState = SPECTRUM, previousState = SPECTRUM,
      peak = \<lparr>pk_t = 0, pk_rssi = 0, pk_f = 0, pk_i = 0\<rparr>,
      scanInfo = \<lparr>si_rssi = 0, si_rssiMin = 0, si_rssiMax = 0, si_i = 0, si_iPeak = 0,
                  si_f = 0, si_fPeak = 0, si_scanStep = 0, si_measurementsCount = 0\<rparr>,
      settings = \<lparr>frequencyChangeStep = 80000, stepsCount = STEPS_64, scanStepIndex = 12,
                  scanDelay = 3200, rssiTriggerLevel = 150, bw = 0, listenBw = 0,
                  dbMin = - 130, dbMax = - 50, modulationType = 0, backlightState = True\<rparr>,
      blacklistFreqs = replicate 15 0, blacklistFreqsIdx = 0,
      fMeasure = 0, currentFreq = 0, tempFreq = 0,
      rssiHistory = replicate 128 0,
      spectrum_peaks = replicate 128 0, spectrum_peak_age = replicate 128 0,
      spectrum_smoothed = replicate 128 0,
      waterfall_rows = replicate 16 (replicate 16 0), waterfall_phase = 0,
      waterfall_scan_count = 0,
      freqInputIndex = 0, freqInputDotIndex = 0, freqInputArr = replicate 10 0,
      freqInputString = replicate 11 (CHR 0x00),
      listenT = 0, regs = (\<lambda>r. 0), hw = [], n_samples = 0\<rparr>"

text \<open>The sizes of the arrays, as declared.\<close>

definition wf :: "state \<Rightarrow> bool" where
  "wf s =
     (length (rssiHistory s) = 128 \<and> length (spectrum_peaks s) = 128 \<and>
      length (spectrum_peak_age s) = 128 \<and> length (spectrum_smoothed s) = 128 \<and>
      length (waterfall_rows s) = 16 \<and> list_all (\<lambda>r. length r = 16) (waterfall_rows s) \<and>
      length (blacklistFreqs s) = 15 \<and> length (freqInputArr s) = 10 \<and>
      length (freqInputString s) = 11)"

text \<open>\<open>same_app s' s\<close>: \<open>s'\<close> differs from \<open>s\<close> at most in what the receiver's side of the
  module holds (the registers, the driver log, \<^verbatim>\<open>isListening\<close>, \<^verbatim>\<open>audioState\<close>,
  \<^verbatim>\<open>listenT\<close> and \<^verbatim>\<open>fMeasure\<close>).\<close>

definition same_app :: "state \<Rightarrow> state \<Rightarrow> bool" where
  "same_app s' s =
     (monitorMode s' = monitorMode s \<and> redrawStatus s' = redrawStatus s \<and>
      redrawScreen s' = redrawScreen s \<and> newScanStart s' = newScanStart s \<and>
      preventKeypress s' = preventKeypress s \<and> lockAGC s' = lockAGC s \<and>
      currentState s' = currentState s \<and> previousState s' = previousState s \<and>
      peak s' = peak s \<and> scanInfo s' = scanInfo s \<and> settings s' = settings s \<and>
      blacklistFreqs s' = blacklistFreqs s \<and> blacklistFreqsIdx s' = blacklistFreqsIdx s \<and>
      currentFreq s' = currentFreq s \<and> tempFreq s' = tempFreq s \<and>
      rssiHistory s' = rssiHistory s \<and> spectrum_peaks s' = spectrum_peaks s \<and>
      spectrum_peak_age s' = spectrum_peak_age s \<and> spectrum_smoothed s' = spectrum_smoothed s \<and>
      waterfall_rows s' = waterfall_rows s \<and> waterfall_phase s' = waterfall_phase s \<and>
      waterfall_scan_count s' = waterfall_scan_count s \<and>
      freqInputIndex s' = freqInputIndex s \<and> freqInputDotIndex s' = freqInputDotIndex s \<and>
      freqInputArr s' = freqInputArr s \<and> freqInputString s' = freqInputString s \<and>
      n_samples s' = n_samples s)"

text \<open>A receiver that reports the RSSI 0 at every sample.\<close>

definition board_quiet :: board where
  "board_quiet = board0\<lparr>hw_rssi := (\<lambda>k. 0)\<rparr>"

text \<open>The last tick of a 64-bin pass that measured 0 everywhere, started by
  \<^verbatim>\<open>RelaunchScan\<close> (which set the trigger level to the sentinel and the peak's RSSI and age
  to 0) while the peak of an earlier pass was still recorded at 144 MHz.\<close>

definition state_quiet_pass :: state where
  "state_quiet_pass =
     state0\<lparr>isListening := False, newScanStart := False,
            peak := \<lparr>pk_t = 64, pk_rssi = 0, pk_f = 14400000, pk_i = 3\<rparr>,
            scanInfo := \<lparr>si_rssi = 0, si_rssiMin = 0, si_rssiMax = 0, si_i = 64, si_iPeak = 0,
                         si_f = 14560000, si_fPeak = 0, si_scanStep = 2500,
                         si_measurementsCount = 64\<rparr>,
            settings := (settings state0)\<lparr>rssiTriggerLevel := RSSI_MAX_VALUE\<rparr>\<rparr>"

text \<open>The last tick of a first 64-bin pass (no peak recorded yet) whose strongest bin, bin 20,
  measured 400, with the trigger level at the sentinel.\<close>

definition state_last_bin :: state where
  "state_last_bin =
     state0\<lparr>isListening := False, newScanStart := False,
            peak := \<lparr>pk_t = 64, pk_rssi = 0, pk_f = 0, pk_i = 0\<rparr>,
            scanInfo := \<lparr>si_rssi = 100, si_rssiMin = 100, si_rssiMax = 400, si_i = 64,
                         si_iPeak = 20, si_f = 14560000, si_fPeak = 14450000,
                         si_scanStep = 2500, si_measurementsCount = 64\<rparr>,
            settings := (settings state0)\<lparr>rssiTriggerLevel := RSSI_MAX_VALUE\<rparr>\<rparr>"

text \<open>What "a new pass with recomputed start and step" means for the state: the bin index is
  0, the frequency, step and measurement count of the pass are the ones the settings give,
  the running maximum is reset and key presses are held off until the pass is under way.\<close>

definition pass_restarted :: "board \<Rightarrow> state \<Rightarrow> bool" where
  "pass_restarted b s =
     (si_i (scanInfo s) = 0 \<and> si_f (scanInfo s) = GetFStart b s \<and>
      si_scanStep (scanInfo s) = GetScanStep b s \<and>
      si_measurementsCount (scanInfo s) = GetStepsCount b s \<and>
      si_rssiMax (scanInfo s) = 0 \<and> preventKeypress s)"

text \<open>No bin of the history is marked with the sentinel and, with scan ranges, the list of
  blacklisted indices is empty.\<close>

definition blacklist_cleared :: "board \<Rightarrow> state \<Rightarrow> bool" where
  "blacklist_cleared b s =
     (list_all (\<lambda>v. v \<noteq> RSSI_MAX_VALUE) (rssiHistory s) \<and>
      (if ENABLE_SCAN_RANGES b then blacklistFreqs s = replicate 15 0 \<and> blacklistFreqsIdx s = 0
       else True))"

text \<open>A board with a scan range of 129 steps of 25 kHz from 144 MHz, and the state at the start
  of a pass over it: \<^verbatim>\<open>InitScan\<close> sets the measurement count to 129, so the history is
  folded.\<close>

definition board_range :: board where
  "board_range = board0\<lparr>gScanRangeStart := 14400000, gScanRangeStop := 14720000\<rparr>"

definition state_range :: state where
  "state_range =
     (InitScan board_range (state0\<lparr>isListening := False, currentFreq := 14400000\<rparr>))
       \<lparr>newScanStart := False\<rparr>"

text \<open>The same, after bin 0 measured 500.\<close>

definition state_range_500 :: state where
  "state_range_500 = state_range\<lparr>rssiHistory := (replicate 128 0)[0 := 500]\<rparr>"

text \<open>The state that \<^verbatim>\<open>Scan\<close> leaves on the last tick of a first 128-bin pass (bin index 128)
  whose strongest bin, bin 64, measured 400, with the trigger level at the sentinel.\<close>

definition state_pass_done :: state where
  "state_pass_done =
     state0\<lparr>isListening := False, newScanStart := False,
            peak := \<lparr>pk_t = 128, pk_rssi = 0, pk_f = 0, pk_i = 0\<rparr>,
            scanInfo := \<lparr>si_rssi = 100, si_rssiMin = 100, si_rssiMax = 400, si_i = 128,
                         si_iPeak = 64, si_f = 14720000, si_fPeak = 14560000,
                         si_scanStep = 2500, si_measurementsCount = 128\<rparr>,
            settings := (settings state0)\<lparr>stepsCount := STEPS_128,
                                           rssiTriggerLevel := RSSI_MAX_VALUE\<rparr>\<rparr>"


text \<open>The initial state with a flat history: every bin holds 300.\<close>

definition state_flat :: state where
  "state_flat = state0\<lparr>rssiHistory := replicate 128 300\<rparr>"

text \<open>The initial state tuned to 145 MHz with the smallest step of \<open>board0\<close> (centre mode) and
  128 bins.\<close>

definition state_centre :: state where
  "state_centre =
     state0\<lparr>currentFreq := 14500000,
            settings := (settings state0)\<lparr>stepsCount := STEPS_128, scanStepIndex := 0\<rparr>\<rparr>"

text \<open>Up to \<open>n\<close> ticks of the sweep: the loop of \<^verbatim>\<open>APP_RunSpectrum\<close> for as long as the state is
  \<^verbatim>\<open>SPECTRUM\<close> and the receiver is not listening; it stops at the first access beyond an
  array.\<close>

primrec run_ticks :: "board \<Rightarrow> nat \<Rightarrow> state \<Rightarrow> error + state" where
  "run_ticks b 0 s = Inr s"
| "run_ticks b (Suc n) s =
     (if isListening s \<or> currentState s \<noteq> SPECTRUM then Inr s
      else bindE (Tick_scan b s) (run_ticks b n))"

text \<open>The initial state with the receiver off and the bin-count selector at 128 bins; a new
  pass is requested (\<^verbatim>\<open>newScanStart\<close>), as at the start of a session.\<close>

definition state_128 :: state where
  "state_128 =
     state0\<lparr>isListening := False,
            settings := (settings state0)\<lparr>stepsCount := STEPS_128\<rparr>\<rparr>"

text \<open>The waterfall as \<^verbatim>\<open>ResetScanStats\<close> leaves it: all 16 rows blank and the phase 0.\<close>

definition fresh_waterfall :: "state \<Rightarrow> bool" where
  "fresh_waterfall s =
     (waterfall_rows s = replicate 16 (replicate 16 0) \<and> waterfall_phase s = 0)"

text \<open>The waterfall with the phase at 1 and rows 1 to 15 blank: only the top row can hold
  pixels.\<close>

definition one_line_waterfall :: "state \<Rightarrow> bool" where
  "one_line_waterfall s =
     (waterfall_phase s = 1 \<and> drop 1 (waterfall_rows s) = replicate 15 (replicate 16 0))"

section \<open>Basic lemmas\<close>

lemma bindE_Inr_iff: "bindE m g = Inr y \<longleftrightarrow> (\<exists>x. m = Inr x \<and> g x = Inr y)"
  by (cases m) (simp_all add: bindE_def)

lemma bindE_Inr [simp]: "bindE (Inr x) g = g x"
  by (simp add: bindE_def)

lemma bindE_Inl [simp]: "bindE (Inl e) g = Inl e"
  by (simp add: bindE_def)

lemma same_app_refl [simp]: "same_app s s"
  by (simp add: same_app_def)

lemma same_app_upd [simp]:
  "same_app (s'\<lparr>isListening := a\<rparr>) s = same_app s' s"
  "same_app (s'\<lparr>listenT := t\<rparr>) s = same_app s' s"
  "same_app (s'\<lparr>fMeasure := f\<rparr>) s = same_app s' s"
  "same_app (s'\<lparr>audioState := a\<rparr>) s = same_app s' s"
  by (simp_all add: same_app_def)

lemma same_app_driver [simp]: "same_app (driver e s') s = same_app s' s"
  by (simp add: same_app_def driver_def)

lemma same_app_WriteRegister [simp]: "same_app (BK4819_WriteRegister r v s') s = same_app s' s"
  by (simp add: same_app_def BK4819_WriteRegister_def)

lemma same_app_ToggleAudio [simp]: "same_app (ToggleAudio on s') s = same_app s' s"
  by (simp add: ToggleAudio_def)

lemma same_app_ToggleAFDAC [simp]: "same_app (ToggleAFDAC on s') s = same_app s' s"
  by (simp add: ToggleAFDAC_def Let_def)

lemma same_app_ToggleAFBit [simp]: "same_app (ToggleAFBit on s') s = same_app s' s"
  by (simp add: ToggleAFBit_def Let_def)

lemma same_app_SetF [simp]: "same_app (SetF f s') s = same_app s' s"
  by (simp add: SetF_def Let_def)

lemma same_app_ToggleRX [simp]: "same_app (ToggleRX b on s') s = same_app s' s"
  by (simp add: ToggleRX_def Let_def)

lemma same_app_fields:
  assumes "same_app s' s"
  shows "monitorMode s' = monitorMode s" "redrawStatus s' = redrawStatus s"
    "redrawScreen s' = redrawScreen s" "newScanStart s' = newScanStart s"
    "preventKeypress s' = preventKeypress s" "lockAGC s' = lockAGC s"
    "currentState s' = currentState s" "previousState s' = previousState s"
    "peak s' = peak s" "scanInfo s' = scanInfo s" "settings s' = settings s"
    "blacklistFreqs s' = blacklistFreqs s" "blacklistFreqsIdx s' = blacklistFreqsIdx s"
    "currentFreq s' = currentFreq s" "tempFreq s' = tempFreq s"
    "rssiHistory s' = rssiHistory s" "spectrum_peaks s' = spectrum_peaks s"
    "spectrum_peak_age s' = spectrum_peak_age s" "spectrum_smoothed s' = spectrum_smoothed s"
    "waterfall_rows s' = waterfall_rows s" "waterfall_phase s' = waterfall_phase s"
    "waterfall_scan_count s' = waterfall_scan_count s"
    "freqInputIndex s' = freqInputIndex s" "freqInputDotIndex s' = freqInputDotIndex s"
    "freqInputArr s' = freqInputArr s" "freqInputString s' = freqInputString s"
    "n_samples s' = n_samples s"
  using assms by (simp_all add: same_app_def)

lemma SetF_same: "same_app (SetF f s) s"
  by simp

lemma ToggleRX_same: "same_app (ToggleRX b on s) s"
  by simp

lemmas SetF_frame [simp] = same_app_fields [OF SetF_same]

lemmas ToggleRX_frame [simp] = same_app_fields [OF ToggleRX_same]

lemma TuneToPeak_frame [simp]:
  "settings (TuneToPeak s) = settings s" "peak (TuneToPeak s) = peak s"
  "rssiHistory (TuneToPeak s) = rssiHistory s"
  "waterfall_rows (TuneToPeak s) = waterfall_rows s"
  "waterfall_phase (TuneToPeak s) = waterfall_phase s"
  "newScanStart (TuneToPeak s) = newScanStart s"
  by (simp_all add: TuneToPeak_def Let_def)

lemma Waterfall_AddLine_frame [simp]:
  "settings (Waterfall_AddLine b s) = settings s" "peak (Waterfall_AddLine b s) = peak s"
  "scanInfo (Waterfall_AddLine b s) = scanInfo s"
  "rssiHistory (Waterfall_AddLine b s) = rssiHistory s"
  "newScanStart (Waterfall_AddLine b s) = newScanStart s"
  "isListening (Waterfall_AddLine b s) = isListening s"
  by (simp_all add: Waterfall_AddLine_def Let_def)

lemma clear_unused_bins_frame:
  "clear_unused_bins s = Inr s' \<Longrightarrow>
     settings s' = settings s \<and> peak s' = peak s \<and> scanInfo s' = scanInfo s"
  by (auto simp: clear_unused_bins_def Let_def split: if_splits)

section \<open>Peak refresh and the automatic trigger level\<close>

lemma UpdatePeakInfo_trigger:
  "rssiTriggerLevel (settings (UpdatePeakInfo s)) =
     (if rssiTriggerLevel (settings s) = RSSI_MAX_VALUE \<and>
         (pk_f (peak s) = 0 \<or> 1024 \<le> pk_t (peak s) \<or> pk_rssi (peak s) < si_rssiMax (scanInfo s))
      then word_of_int (clamp (uint (si_rssiMax (scanInfo s)) + 8) 0 (uint RSSI_MAX_VALUE))
      else rssiTriggerLevel (settings s))"
  by (simp add: UpdatePeakInfo_def UpdatePeakInfoForce_def AutoTriggerLevel_def)

lemma UpdatePeakInfo_settings_cong:
  "settings s = settings s0 \<Longrightarrow> peak s = peak s0 \<Longrightarrow> scanInfo s = scanInfo s0 \<Longrightarrow>
     settings (UpdatePeakInfo s) = settings (UpdatePeakInfo s0)"
  by (simp add: UpdatePeakInfo_def UpdatePeakInfoForce_def AutoTriggerLevel_def)

text \<open>The end of a pass in \<^verbatim>\<open>UpdateScan\<close>, step by step.\<close>

lemma UpdateScan_at_end:
  assumes "Scan b s = Inr s1"
    and "\<not> si_i (scanInfo s1) < si_measurementsCount (scanInfo s1)"
  shows "UpdateScan b s = UpdateScan_finish b s1"
  using assms by (simp add: UpdateScan_def)

lemma UpdateScan_finish_cases:
  assumes "UpdateScan_finish b s1 = Inr s'"
  obtains s2 s4 where "clear_unused_bins s1 = Inr s2"
    and "s4 = UpdatePeakInfo (s2\<lparr>redrawScreen := True, preventKeypress := False,
                 spectrum_peaks := replicate 128 0xFFFF, spectrum_peak_age := replicate 128 0\<rparr>)"
    and "s' = (if IsPeakOverLevel s4 then TuneToPeak (ToggleRX b True s4)
               else (Waterfall_AddLine b s4)\<lparr>newScanStart := True\<rparr>)"
  using assms by (auto simp: UpdateScan_finish_def bindE_Inr_iff Let_def split: if_splits)

lemma UpdateScan_finish_settings:
  assumes "UpdateScan_finish b s1 = Inr s'"
  shows "settings s' = settings (UpdatePeakInfo s1)"
proof -
  from assms obtain s2 s4 where c: "clear_unused_bins s1 = Inr s2"
    and s4: "s4 = UpdatePeakInfo (s2\<lparr>redrawScreen := True, preventKeypress := False,
                 spectrum_peaks := replicate 128 0xFFFF, spectrum_peak_age := replicate 128 0\<rparr>)"
    and s': "s' = (if IsPeakOverLevel s4 then TuneToPeak (ToggleRX b True s4)
               else (Waterfall_AddLine b s4)\<lparr>newScanStart := True\<rparr>)"
    by (rule UpdateScan_finish_cases)
  have "settings s' = settings s4"
    by (simp add: s')
  also have "\<dots> = settings (UpdatePeakInfo s1)"
    unfolding s4 using clear_unused_bins_frame [OF c]
    by (intro UpdatePeakInfo_settings_cong) simp_all
  finally show ?thesis .
qed

lemma clear_unused_bins_total:
  assumes "length (rssiHistory s) = 128" and "si_measurementsCount (scanInfo s) \<le> 128"
  shows "\<exists>s'. clear_unused_bins s = Inr s'"
proof -
  from assms(2) have "unat (si_measurementsCount (scanInfo s)) \<le> 128"
    by (simp add: word_le_nat_alt)
  with assms(1) show ?thesis by (simp add: clear_unused_bins_def Let_def)
qed

lemma UpdateScan_finish_total:
  assumes "length (rssiHistory s) = 128" and "si_measurementsCount (scanInfo s) \<le> 128"
  shows "\<exists>s'. UpdateScan_finish b s = Inr s'"
proof -
  from clear_unused_bins_total [OF assms] obtain s2 where "clear_unused_bins s = Inr s2" ..
  then show ?thesis by (simp add: UpdateScan_finish_def Let_def)
qed

lemmas quiet_defs = state_quiet_pass_def state0_def board_quiet_def board0_def

lemmas scan_eval_defs = UpdateScan_def UpdateScan_finish_def Scan_def rd_def wr_def Measure_def GetRssi_def
  SetRssiHistory_def UpdateScanInfo_def RSSI_MAX_VALUE_def IsBlacklisted_def
  clear_unused_bins_def UpdatePeakInfo_def IsPeakOverLevel_def Let_def

lemma UpdateScan_quiet:
  "\<not> isl (UpdateScan board_quiet state_quiet_pass)"
  "newScanStart (projr (UpdateScan board_quiet state_quiet_pass))"
  "rssiTriggerLevel (settings (projr (UpdateScan board_quiet state_quiet_pass))) = 65535"
  "si_rssiMax (scanInfo (projr (UpdateScan board_quiet state_quiet_pass))) = 0"
  by (simp_all add: scan_eval_defs quiet_defs)

text \<open>C5. \<^verbatim>\<open>UpdatePeakInfo\<close> overwrites the peak with the running maximum of the pass
  (RSSI, frequency and bin index from \<^verbatim>\<open>scanInfo\<close>, age 0) exactly when the peak is unset
  (\<^verbatim>\<open>peak.f == 0\<close>), its age has reached 1024 or the maximum of the pass exceeds its RSSI;
  otherwise all four fields of the peak keep their values.\<close>

theorem C5_UpdatePeakInfo_refresh:
  "peak (UpdatePeakInfo s) =
     (if pk_f (peak s) = 0 \<or> 1024 \<le> pk_t (peak s) \<or> si_rssiMax (scanInfo s) > pk_rssi (peak s)
      then \<lparr>pk_t = 0, pk_rssi = si_rssiMax (scanInfo s), pk_f = si_fPeak (scanInfo s),
            pk_i = si_iPeak (scanInfo s)\<rparr>
      else peak s)"
  by (simp add: UpdatePeakInfo_def UpdatePeakInfoForce_def AutoTriggerLevel_def)

theorem C5_witness:
  "peak (UpdatePeakInfo state_last_bin) = \<lparr>pk_t = 0, pk_rssi = 400, pk_f = 14450000, pk_i = 20\<rparr> \<and>
   peak (UpdatePeakInfo state_quiet_pass) = \<lparr>pk_t = 64, pk_rssi = 0, pk_f = 14400000, pk_i = 3\<rparr>"
  using C5_UpdatePeakInfo_refresh [of state_last_bin] C5_UpdatePeakInfo_refresh [of state_quiet_pass]
  by (simp add: state_last_bin_def state_quiet_pass_def state0_def)

text \<open>C4, as the claim states it, fails: at the end of a pass that measured 0 everywhere,
  with the trigger level at the sentinel and an older peak still recorded, the peak is not
  refreshed and the trigger level stays at the sentinel 65535 instead of becoming
  \<open>clamp (0 + 8) 0 65535 = 8\<close>.\<close>

theorem C4_counterexample:
  "rssiTriggerLevel (settings state_quiet_pass) = RSSI_MAX_VALUE \<and>
   \<not> isl (UpdateScan board_quiet state_quiet_pass) \<and>
   newScanStart (projr (UpdateScan board_quiet state_quiet_pass)) \<and>
   rssiTriggerLevel (settings (projr (UpdateScan board_quiet state_quiet_pass))) \<noteq>
     word_of_int (clamp (uint (si_rssiMax (scanInfo (projr (UpdateScan board_quiet state_quiet_pass)))) + 8)
                    0 (uint RSSI_MAX_VALUE))"
  by (simp add: UpdateScan_quiet clamp_def RSSI_MAX_VALUE_def) (simp add: quiet_defs RSSI_MAX_VALUE_def)

text \<open>C4, amended. \<^verbatim>\<open>UpdateScan\<close> completes a pass by running \<open>UpdateScan_finish\<close> on the
  state \<open>s1\<close> that its \<^verbatim>\<open>Scan\<close> call leaves (lemma \<open>UpdateScan_at_end\<close>). With the 128-entry
  history and at most 128 bins this processing always runs to its end. Whenever it does: if
  the trigger level is at the sentinel and the peak is refreshed (it is unset, its age has
  reached 1024, or the maximum of the pass exceeds it), the trigger level becomes
  \<open>clamp (rssiMax + 8) 0 RSSI_MAX_VALUE\<close>; in every other case it is left unchanged.\<close>

theorem C4_trigger_after_pass:
  "(length (rssiHistory s1) = 128 \<and> si_measurementsCount (scanInfo s1) \<le> 128 \<longrightarrow>
      (\<exists>s'. UpdateScan_finish b s1 = Inr s')) \<and>
   (\<forall>s'. UpdateScan_finish b s1 = Inr s' \<longrightarrow>
      rssiTriggerLevel (settings s') =
        (if rssiTriggerLevel (settings s1) = RSSI_MAX_VALUE \<and>
            (pk_f (peak s1) = 0 \<or> 1024 \<le> pk_t (peak s1) \<or>
             pk_rssi (peak s1) < si_rssiMax (scanInfo s1))
         then word_of_int (clamp (uint (si_rssiMax (scanInfo s1)) + 8) 0 (uint RSSI_MAX_VALUE))
         else rssiTriggerLevel (settings s1)))"
proof (intro conjI impI allI)
  assume "length (rssiHistory s1) = 128 \<and> si_measurementsCount (scanInfo s1) \<le> 128"
  then show "\<exists>s'. UpdateScan_finish b s1 = Inr s'"
    using UpdateScan_finish_total by blast
next
  fix s'
  assume "UpdateScan_finish b s1 = Inr s'"
  then have "settings s' = settings (UpdatePeakInfo s1)" by (rule UpdateScan_finish_settings)
  then show "rssiTriggerLevel (settings s') =
        (if rssiTriggerLevel (settings s1) = RSSI_MAX_VALUE \<and>
            (pk_f (peak s1) = 0 \<or> 1024 \<le> pk_t (peak s1) \<or>
             pk_rssi (peak s1) < si_rssiMax (scanInfo s1))
         then word_of_int (clamp (uint (si_rssiMax (scanInfo s1)) + 8) 0 (uint RSSI_MAX_VALUE))
         else rssiTriggerLevel (settings s1))"
    by (simp only: UpdatePeakInfo_trigger)
qed

theorem C4_witness:
  "rssiTriggerLevel (settings state_pass_done) = RSSI_MAX_VALUE \<and>
   si_measurementsCount (scanInfo state_pass_done) = 128 \<and>
   si_rssiMax (scanInfo state_pass_done) = 400 \<and>
   \<not> isl (UpdateScan_finish board0 state_pass_done) \<and>
   rssiTriggerLevel (settings (projr (UpdateScan_finish board0 state_pass_done))) = 408"
proof -
  have f: "length (rssiHistory state_pass_done) = 128"
    "si_measurementsCount (scanInfo state_pass_done) = 128"
    "si_rssiMax (scanInfo state_pass_done) = 400" "pk_f (peak state_pass_done) = 0"
    "rssiTriggerLevel (settings state_pass_done) = RSSI_MAX_VALUE"
    by (simp_all add: state_pass_done_def state0_def)
  have "\<exists>s'. UpdateScan_finish board0 state_pass_done = Inr s'"
    by (rule C4_trigger_after_pass [THEN conjunct1, rule_format]) (simp add: f)
  then obtain s' where s': "UpdateScan_finish board0 state_pass_done = Inr s'" ..
  from C4_trigger_after_pass [THEN conjunct2, rule_format, OF s']
  have "rssiTriggerLevel (settings s') = 408"
    by (simp add: f clamp_def) (simp add: RSSI_MAX_VALUE_def)
  with s' f show ?thesis by simp
qed

section \<open>The bin-count selector\<close>

lemmas geometry_defs = GetFStart_def GetBW_def GetStepsCount_def GetScanStep_def IsCenterMode_def

lemma InitScan_fields:
  "settings (InitScan b s) = settings s" "currentFreq (InitScan b s) = currentFreq s"
  "rssiHistory (InitScan b s) = rssiHistory s" "peak (InitScan b s) = peak s"
  "blacklistFreqs (InitScan b s) = blacklistFreqs s"
  "blacklistFreqsIdx (InitScan b s) = blacklistFreqsIdx s"
  "scanInfo (InitScan b s) =
     (scanInfo s)\<lparr>si_rssi := 0, si_rssiMax := 0, si_iPeak := 0, si_fPeak := 0, si_i := 0,
                   si_f := GetFStart b s, si_scanStep := GetScanStep b s,
                   si_measurementsCount := GetStepsCount b s\<rparr>"
  "waterfall_rows (InitScan b s) = replicate 16 (replicate 16 0)"
  "waterfall_phase (InitScan b s) = 0"
  "newScanStart (InitScan b s) = newScanStart s"
  "isListening (InitScan b s) = isListening s"
  "currentState (InitScan b s) = currentState s"
  by (simp_all add: InitScan_def ResetScanStats_def Let_def geometry_defs)

lemma RelaunchScan_fields:
  "settings (RelaunchScan b s) =
     (if SPECTRUM_AUTOMATIC_SQUELCH b then (settings s)\<lparr>rssiTriggerLevel := RSSI_MAX_VALUE\<rparr>
      else settings s)"
  "currentFreq (RelaunchScan b s) = currentFreq s"
  "rssiHistory (RelaunchScan b s) = rssiHistory s"
  "blacklistFreqs (RelaunchScan b s) = blacklistFreqs s"
  "blacklistFreqsIdx (RelaunchScan b s) = blacklistFreqsIdx s"
  "scanInfo (RelaunchScan b s) =
     (scanInfo s)\<lparr>si_rssi := 0, si_rssiMax := 0, si_iPeak := 0, si_fPeak := 0, si_i := 0,
                   si_f := GetFStart b s, si_scanStep := GetScanStep b s,
                   si_measurementsCount := GetStepsCount b s, si_rssiMin := RSSI_MAX_VALUE\<rparr>"
  "preventKeypress (RelaunchScan b s)"
  by (simp_all add: RelaunchScan_def Let_def InitScan_fields ResetPeak_def)

lemma ResetBlacklist_fields:
  "settings (ResetBlacklist b s) = settings s" "currentFreq (ResetBlacklist b s) = currentFreq s"
  "scanInfo (ResetBlacklist b s) = scanInfo s"
  "preventKeypress (ResetBlacklist b s) = preventKeypress s"
  "rssiHistory (ResetBlacklist b s) = map (\<lambda>v. if v = RSSI_MAX_VALUE then 0 else v) (rssiHistory s)"
  by (simp_all add: ResetBlacklist_def Let_def)

lemma ResetBlacklist_cleared: "blacklist_cleared b (ResetBlacklist b s)"
  by (auto simp: blacklist_cleared_def ResetBlacklist_def Let_def list_all_iff RSSI_MAX_VALUE_def)

lemma blacklist_cleared_redraw [simp]:
  "blacklist_cleared b (s\<lparr>redrawScreen := x\<rparr>) = blacklist_cleared b s"
  by (simp add: blacklist_cleared_def)

lemma ToggleStepsCount_settings:
  "stepsCount (settings (ToggleStepsCount b s)) =
     (if stepsCount (settings s) = STEPS_128 then STEPS_16 else stepsCount (settings s) - 1)"
  "scanStepIndex (settings (ToggleStepsCount b s)) = scanStepIndex (settings s)"
  "currentFreq (ToggleStepsCount b s) = currentFreq s"
  by (simp_all add: ToggleStepsCount_def Let_def ResetBlacklist_fields RelaunchScan_fields)

lemma ToggleStepsCount_restarts:
  "pass_restarted b (ToggleStepsCount b s)" "blacklist_cleared b (ToggleStepsCount b s)"
   apply (simp add: pass_restarted_def ToggleStepsCount_def Let_def ResetBlacklist_fields RelaunchScan_fields geometry_defs)
  apply (simp add: ToggleStepsCount_def Let_def ResetBlacklist_cleared)
  done

lemma drop_bit_128_eq_64: "drop_bit n (128 :: u16) = 64 \<longleftrightarrow> n = 1"
proof
  assume h: "drop_bit n (128 :: u16) = 64"
  have "unat (drop_bit n (128 :: u16)) = drop_bit n (unat (128 :: u16))"
    by (rule unat_drop_bit_eq)
  then have "unat (drop_bit n (128 :: u16)) = 128 div 2 ^ n"
    by (simp only: drop_bit_eq_div) simp
  with h have e: "(128 :: nat) div 2 ^ n = 64" by simp
  show "n = 1"
  proof (rule ccontr)
    assume "n \<noteq> 1"
    then consider "n = 0" | "n \<ge> 2" by linarith
    then show False
    proof cases
      case 1 with e show False by simp
    next
      case 2
      then have "(2::nat) ^ 2 \<le> 2 ^ n" by (intro power_increasing) simp_all
      then have "(128 :: nat) div 2 ^ n \<le> 128 div 2 ^ 2" by (intro div_le_mono2) simp_all
      with e show False by simp
    qed
  qed
next
  assume "n = 1" then show "drop_bit n (128 :: u16) = 64" by simp
qed

lemma GetStepsCount_no_range:
  "\<not> (ENABLE_SCAN_RANGES b \<and> gScanRangeStart b \<noteq> 0) \<Longrightarrow>
     GetStepsCount b s = drop_bit (stepsCount (settings s)) 128"
  by (auto simp: GetStepsCount_def)

text \<open>C7, amended. Without a scan range (the only case in which the key handler calls
  \<^verbatim>\<open>ToggleStepsCount\<close>), starting from a bin count of 64, four successive calls give the
  bin counts 128, 16, 32 and 64 in that order; and every call, from any state, clears the
  blacklist and restarts the pass with its start and step recomputed.\<close>

theorem C7_cycle:
  assumes nr: "\<not> (ENABLE_SCAN_RANGES b \<and> gScanRangeStart b \<noteq> 0)"
    and start: "GetStepsCount b s = 64"
  shows "GetStepsCount b (ToggleStepsCount b s) = 128 \<and>
         GetStepsCount b (ToggleStepsCount b (ToggleStepsCount b s)) = 16 \<and>
         GetStepsCount b (ToggleStepsCount b (ToggleStepsCount b (ToggleStepsCount b s))) = 32 \<and>
         GetStepsCount b (ToggleStepsCount b (ToggleStepsCount b (ToggleStepsCount b
            (ToggleStepsCount b s)))) = 64 \<and>
         (\<forall>t. pass_restarted b (ToggleStepsCount b t) \<and> blacklist_cleared b (ToggleStepsCount b t))"
proof -
  from start nr have "stepsCount (settings s) = 1"
    by (simp add: GetStepsCount_no_range drop_bit_128_eq_64)
  then show ?thesis
    by (simp add: GetStepsCount_no_range [OF nr] ToggleStepsCount_settings ToggleStepsCount_restarts
        STEPS_128_def STEPS_16_def)
qed

text \<open>C7, as the claim states it, fails: from a bin count of 64 the first call gives 128,
  not 32.\<close>

theorem C7_counterexample:
  "GetStepsCount board0 state0 = 64 \<and> GetStepsCount board0 (ToggleStepsCount board0 state0) = 128 \<and>
   GetStepsCount board0 (ToggleStepsCount board0 state0) \<noteq> 32"
  by (simp add: GetStepsCount_def ToggleStepsCount_settings board0_def)
     (simp add: state0_def STEPS_64_def STEPS_128_def)

theorem C7_witness:
  "GetStepsCount board0 state0 = 64 \<and>
   GetStepsCount board0 (ToggleStepsCount board0 state0) = 128 \<and>
   GetStepsCount board0 (ToggleStepsCount board0 (ToggleStepsCount board0 state0)) = 16 \<and>
   pass_restarted board0 (ToggleStepsCount board0 state0) \<and>
   blacklist_cleared board0 (ToggleStepsCount board0 state0)"
proof -
  have nr: "\<not> (ENABLE_SCAN_RANGES board0 \<and> gScanRangeStart board0 \<noteq> 0)"
    by (simp add: board0_def)
  have start: "GetStepsCount board0 state0 = 64"
    by (simp add: GetStepsCount_def board0_def state0_def STEPS_64_def)
  show ?thesis using C7_cycle [OF nr start] start by simp
qed

section \<open>Frequency input\<close>

text \<open>C10. Confirming with \<^verbatim>\<open>KEY_MENU\<close> a frequency below \<^verbatim>\<open>F_MIN\<close> or above \<^verbatim>\<open>F_MAX\<close>
  changes nothing: the handler returns the state it was given, so the current state,
  \<^verbatim>\<open>currentFreq\<close> and all the scan state are as before.\<close>

theorem C10_rejected:
  assumes "tempFreq s < F_MIN b \<or> tempFreq s > F_MAX b"
  shows "OnKeyDownFreqInput b KEY_MENU s = Inr s"
  using assms by (simp add: OnKeyDownFreqInput_def)

theorem C10_witness:
  "tempFreq (state0\<lparr>currentState := FREQ_INPUT, tempFreq := 100\<rparr>) < F_MIN board0 \<and>
   OnKeyDownFreqInput board0 KEY_MENU (state0\<lparr>currentState := FREQ_INPUT, tempFreq := 100\<rparr>)
     = Inr (state0\<lparr>currentState := FREQ_INPUT, tempFreq := 100\<rparr>)"
  using C10_rejected [of "state0\<lparr>currentState := FREQ_INPUT, tempFreq := 100\<rparr>" board0]
  by (simp add: board0_def)

section \<open>The history store\<close>

lemma unat_ucast_16_32: "unat (ucast (w :: u16) :: u32) = unat w"
proof -
  have "unat w < 2 ^ 16" using unsigned_less [of w] by simp
  then have "unat w < 2 ^ 32" by simp
  then show ?thesis
    by (simp add: unsigned_ucast_eq take_bit_nat_eq_self)
qed

text \<open>The folded index in natural numbers: nothing overflows in the 32-bit computation, and the
  result is cut to 8 bits.\<close>

lemma fold_index_nat:
  assumes "128 < mc"
  shows "unat (fold_index mc idx) = ((128000 div unat mc) * unat idx div 1000) mod 256"
proof -
  define q :: u32 where "q = 128000 div ucast mc"
  from assms have m: "128 < unat mc" by (simp add: word_less_nat_alt)
  have i: "unat idx < 65536" using unsigned_less [of idx] by simp
  have q: "unat q = 128000 div unat mc"
    by (simp add: q_def unat_div unat_ucast_16_32)
  have "128000 div unat mc \<le> 128000 div 128"
    using m by (intro div_le_mono2) simp_all
  then have qb: "unat q \<le> 1000" by (simp add: q)
  then have "unat q * unat idx \<le> 1000 * 65536"
    using i by (intro mult_mono) simp_all
  then have "unat q * unat (ucast idx :: u32) < 2 ^ LENGTH(32)"
    by (simp add: unat_ucast_16_32)
  then have "unat (q * ucast idx) = unat q * unat (ucast idx :: u32)"
    by (rule unat_mult_lem [THEN iffD1])
  then have p: "unat (q * ucast idx) = unat q * unat idx"
    by (simp only: unat_ucast_16_32)
  have "fold_index mc idx = ucast (q * ucast idx div 1000)"
    by (simp add: fold_index_def q_def)
  then have "unat (fold_index mc idx) = take_bit 8 (unat (q * ucast idx div 1000))"
    by (simp only: unsigned_ucast_eq) simp
  also have "\<dots> = ((128000 div unat mc) * unat idx div 1000) mod 256"
    by (simp only: unat_div p q take_bit_eq_mod) simp
  finally show ?thesis .
qed

lemma fold_slot_bound:
  assumes "i < (m::nat)"
  shows "(128000 div m) * i div 1000 < 128"
proof -
  have "(128000 div m) * i \<le> (128000 div m) * (m - 1)"
    using assms by (intro mult_le_mono2) simp
  also have "\<dots> = (128000 div m) * m - 128000 div m"
    by (simp add: diff_mult_distrib2)
  also have "\<dots> \<le> 128000 - 128000 div m"
    by (intro diff_le_mono) simp
  finally have a: "(128000 div m) * i \<le> 128000 - 128000 div m" .
  show ?thesis
  proof (cases "128000 div m = 0")
    case True then show ?thesis by simp
  next
    case False
    with a have "(128000 div m) * i < 128000" by linarith
    then show ?thesis by simp
  qed
qed

lemma fold_index_in_range:
  assumes "128 < mc" and "idx < mc"
  shows "unat (fold_index mc idx) = (128000 div unat mc) * unat idx div 1000"
    and "unat (fold_index mc idx) < 128"
proof -
  from assms(2) have "unat idx < unat mc" by (simp add: word_less_nat_alt)
  then have b: "(128000 div unat mc) * unat idx div 1000 < 128" by (rule fold_slot_bound)
  then show "unat (fold_index mc idx) = (128000 div unat mc) * unat idx div 1000"
    by (simp add: fold_index_nat [OF assms(1)])
  with b show "unat (fold_index mc idx) < 128" by simp
qed

lemma SetRssiHistory_folded:
  assumes "ENABLE_SCAN_RANGES b" and "128 < si_measurementsCount (scanInfo s)"
    and "length (rssiHistory s) = 128"
    and "unat (fold_index (si_measurementsCount (scanInfo s)) idx) = i" and "i < 128"
  shows "SetRssiHistory b idx v s =
           Inr (s\<lparr>rssiHistory :=
                  (if rssiHistory s ! i < v \<or> isListening s then (rssiHistory s)[i := v]
                   else rssiHistory s)[(i + 1) mod 128 := 0]\<rparr>)"
  using assms by (simp add: SetRssiHistory_def rd_def wr_def Let_def)

lemma SetRssiHistory_direct:
  assumes "\<not> (ENABLE_SCAN_RANGES b \<and> 128 < si_measurementsCount (scanInfo s))"
  shows "SetRssiHistory b idx v s =
           (if unat idx < length (rssiHistory s) then Inr (s\<lparr>rssiHistory := (rssiHistory s)[unat idx := v]\<rparr>)
            else Inl (OutOfBounds (unat idx)))"
  using assms by (auto simp: SetRssiHistory_def wr_def)

text \<open>The folded write in natural numbers: the slot the code computes is
  \<open>i = (128000 div measurementsCount) * idx div 1000\<close>, which is below 128 for an index below
  the measurement count.\<close>

lemma SetRssiHistory_folded_slot:
  assumes "ENABLE_SCAN_RANGES b" and "128 < si_measurementsCount (scanInfo s)"
    and "idx < si_measurementsCount (scanInfo s)" and "length (rssiHistory s) = 128"
    and "i = (128000 div unat (si_measurementsCount (scanInfo s))) * unat idx div 1000"
  shows "i < 128 \<and>
         SetRssiHistory b idx v s =
           Inr (s\<lparr>rssiHistory :=
                  (if rssiHistory s ! i < v \<or> isListening s then (rssiHistory s)[i := v]
                   else rssiHistory s)[(i + 1) mod 128 := 0]\<rparr>)"
proof -
  have e: "unat (fold_index (si_measurementsCount (scanInfo s)) idx) = i"
    and l: "i < 128"
    using fold_index_in_range [OF assms(2,3)] assms(5) by simp_all
  from l SetRssiHistory_folded [OF assms(1,2,4) e l] show ?thesis by simp
qed

lemma state_range_fields:
  "si_measurementsCount (scanInfo state_range) = 129"
  "rssiHistory state_range = replicate 128 0"
  "isListening state_range = False"
  by (simp_all add: state_range_def InitScan_def ResetScanStats_def Let_def GetStepsCount_def GetScanStep_def board_range_def board0_def state0_def)

text \<open>The quotient \<^verbatim>\<open>128 * 1000 / measurementsCount\<close> is truncated before it is multiplied
  by the index, so the slot can fall short of \<open>128 * idx div measurementsCount\<close>: with 129
  measurements index 128 is written to slot 126 and slot 127 never receives a value.\<close>

lemma fold_index_truncates:
  "ENABLE_SCAN_RANGES board_range \<and> 128 < si_measurementsCount (scanInfo state_range) \<and>
   (128 * unat (128 :: u16)) div unat (si_measurementsCount (scanInfo state_range)) = 127 \<and>
   unat (fold_index (si_measurementsCount (scanInfo state_range)) 128) = 126 \<and>
   rssiHistory state_range ! 127 < 7 \<and>
   \<not> isl (SetRssiHistory board_range 128 7 state_range) \<and>
   rssiHistory (projr (SetRssiHistory board_range 128 7 state_range)) ! 127 \<noteq> 7"
  by (simp add: SetRssiHistory_def fold_index_def state_range_fields rd_def wr_def)
     (simp add: board_range_def board0_def)

text \<open>C8, as the claim states it, fails: with 129 measurements, indices 0 and 1 share slot 0;
  after bin 0 measured 500, writing 100 for index 1 (not listening) and reading the slot for
  index 1 gives 500.\<close>

theorem C8_counterexample:
  "ENABLE_SCAN_RANGES board_range \<and> 128 < si_measurementsCount (scanInfo state_range_500) \<and>
   (1 :: u16) < si_measurementsCount (scanInfo state_range_500) \<and>
   (100 :: u16) \<noteq> RSSI_MAX_VALUE \<and>
   \<not> isl (SetRssiHistory board_range 1 100 state_range_500) \<and>
   rssiHistory (projr (SetRssiHistory board_range 1 100 state_range_500))
     ! unat (fold_index (si_measurementsCount (scanInfo state_range_500)) 1) \<noteq> 100"
  by (simp add: SetRssiHistory_def fold_index_def state_range_500_def state_range_fields rd_def wr_def
        RSSI_MAX_VALUE_def board_range_def board0_def)

lemma clear_unused_bins_nth:
  assumes "si_measurementsCount (scanInfo s) \<le> 128" and "length (rssiHistory s) = 128"
  shows "\<exists>s'. clear_unused_bins s = Inr s' \<and> length (rssiHistory s') = 128 \<and>
           (\<forall>k<128. rssiHistory s' ! k =
              (if k < unat (si_measurementsCount (scanInfo s)) then rssiHistory s ! k else 0))"
proof -
  from assms(1) have m: "unat (si_measurementsCount (scanInfo s)) \<le> 128"
    by (simp add: word_le_nat_alt)
  with assms(2) show ?thesis
    by (simp add: clear_unused_bins_def Let_def nth_append)
qed

lemma C8_part1:
  assumes len: "length (rssiHistory s) = 128"
    and a: "si_measurementsCount (scanInfo s) \<le> 128" and x: "idx < si_measurementsCount (scanInfo s)"
  shows "\<exists>s'. SetRssiHistory b idx v s = Inr s' \<and> rssiHistory s' ! unat idx = v"
proof -
  from a x have u: "unat idx < 128" by (simp add: word_less_nat_alt word_le_nat_alt)
  from a have "\<not> 128 < si_measurementsCount (scanInfo s)" by (rule leD)
  then have n: "\<not> (ENABLE_SCAN_RANGES b \<and> 128 < si_measurementsCount (scanInfo s))"
    by simp
  show ?thesis
    unfolding SetRssiHistory_direct [OF n] using u len by simp
qed

lemma C8_part2:
  assumes len: "length (rssiHistory s) = 128"
    and e: "ENABLE_SCAN_RANGES b" and m: "128 < si_measurementsCount (scanInfo s)"
    and x: "idx < si_measurementsCount (scanInfo s)"
    and c: "rssiHistory s ! unat (fold_index (si_measurementsCount (scanInfo s)) idx) < v \<or> isListening s"
  shows "\<exists>s'. SetRssiHistory b idx v s = Inr s' \<and>
                  rssiHistory s' ! unat (fold_index (si_measurementsCount (scanInfo s)) idx) = v"
proof -
  define i where "i = unat (fold_index (si_measurementsCount (scanInfo s)) idx)"
  have i: "unat (fold_index (si_measurementsCount (scanInfo s)) idx) = i" by (simp add: i_def)
  have l: "i < 128" unfolding i_def using m x by (rule fold_index_in_range(2))
  have n: "(i + 1) mod 128 \<noteq> i"
  proof (cases "i = 127")
    case True
    then show ?thesis by simp
  next
    case False
    with l have "i + 1 < 128" by simp
    then show ?thesis by simp
  qed
  have c': "rssiHistory s ! i < v \<or> isListening s" using c by (simp only: i)
  have "SetRssiHistory b idx v s =
      Inr (s\<lparr>rssiHistory := (if rssiHistory s ! i < v \<or> isListening s then (rssiHistory s)[i := v]
                   else rssiHistory s)[(i + 1) mod 128 := 0]\<rparr>)"
    by (rule SetRssiHistory_folded [OF e m len i l])
  also have "\<dots> = Inr (s\<lparr>rssiHistory := ((rssiHistory s)[i := v])[(i + 1) mod 128 := 0]\<rparr>)"
    using c' by (simp only: if_True)
  finally have "SetRssiHistory b idx v s =
      Inr (s\<lparr>rssiHistory := ((rssiHistory s)[i := v])[(i + 1) mod 128 := 0]\<rparr>)" .
  moreover have "((rssiHistory s)[i := v])[(i + 1) mod 128 := 0] ! i = v"
    using l n len by (simp add: nth_list_update)
  ultimately show ?thesis unfolding i by simp
qed

text \<open>C8, amended. With at most 128 measurements, writing \<open>v\<close> (any value) at an index below
  the measurement count and reading the history at that index gives \<open>v\<close>; with scan ranges
  and more than 128 measurements, reading the folded slot gives \<open>v\<close> provided the slot held
  less than \<open>v\<close> or the receiver is listening. With at most 128 measurements the clear at the
  end of a pass zeroes exactly the entries from the measurement count on and leaves the
  entries below it unchanged.\<close>

theorem C8_history_store:
  assumes len: "length (rssiHistory s) = 128"
  shows "(si_measurementsCount (scanInfo s) \<le> 128 \<and> idx < si_measurementsCount (scanInfo s) \<longrightarrow>
            (\<exists>s'. SetRssiHistory b idx v s = Inr s' \<and> rssiHistory s' ! unat idx = v)) \<and>
         (ENABLE_SCAN_RANGES b \<and> 128 < si_measurementsCount (scanInfo s) \<and>
          idx < si_measurementsCount (scanInfo s) \<and>
          (rssiHistory s ! unat (fold_index (si_measurementsCount (scanInfo s)) idx) < v \<or> isListening s) \<longrightarrow>
            (\<exists>s'. SetRssiHistory b idx v s = Inr s' \<and>
                  rssiHistory s' ! unat (fold_index (si_measurementsCount (scanInfo s)) idx) = v)) \<and>
         (si_measurementsCount (scanInfo s) \<le> 128 \<longrightarrow>
            (\<exists>s'. clear_unused_bins s = Inr s' \<and> length (rssiHistory s') = 128 \<and>
               (\<forall>k<128. rssiHistory s' ! k =
                  (if k < unat (si_measurementsCount (scanInfo s)) then rssiHistory s ! k else 0))))"
proof (intro conjI impI)
  assume "si_measurementsCount (scanInfo s) \<le> 128 \<and> idx < si_measurementsCount (scanInfo s)"
  then show "\<exists>s'. SetRssiHistory b idx v s = Inr s' \<and> rssiHistory s' ! unat idx = v"
    using C8_part1 [OF len] by simp
next
  assume "ENABLE_SCAN_RANGES b \<and> 128 < si_measurementsCount (scanInfo s) \<and>
          idx < si_measurementsCount (scanInfo s) \<and>
          (rssiHistory s ! unat (fold_index (si_measurementsCount (scanInfo s)) idx) < v \<or> isListening s)"
  then show "\<exists>s'. SetRssiHistory b idx v s = Inr s' \<and>
                  rssiHistory s' ! unat (fold_index (si_measurementsCount (scanInfo s)) idx) = v"
    using C8_part2 [OF len] by simp
next
  assume "si_measurementsCount (scanInfo s) \<le> 128"
  then show "\<exists>s'. clear_unused_bins s = Inr s' \<and> length (rssiHistory s') = 128 \<and>
               (\<forall>k<128. rssiHistory s' ! k =
                  (if k < unat (si_measurementsCount (scanInfo s)) then rssiHistory s ! k else 0))"
    by (rule clear_unused_bins_nth [OF _ len])
qed

theorem C8_witness:
  "rssiHistory (projr (SetRssiHistory board0 5 77 state_last_bin)) ! 5 = 77 \<and>
   rssiHistory (projr (SetRssiHistory board_range 128 7 state_range)) ! 126 = 7 \<and>
   rssiHistory (projr (clear_unused_bins (state_last_bin\<lparr>rssiHistory := replicate 128 9\<rparr>))) ! 63 = 9 \<and>
   rssiHistory (projr (clear_unused_bins (state_last_bin\<lparr>rssiHistory := replicate 128 9\<rparr>))) ! 64 = 0"
proof -
  let ?s = "state_last_bin\<lparr>rssiHistory := replicate 128 9\<rparr>"
  have f: "si_measurementsCount (scanInfo state_last_bin) = 64"
    "length (rssiHistory state_last_bin) = 128"
    "si_measurementsCount (scanInfo ?s) = 64" "length (rssiHistory ?s) = 128"
    "rssiHistory ?s = replicate 128 9"
    by (simp_all add: state_last_bin_def state0_def)
  have l: "length (rssiHistory state_range) = 128" by (simp add: state_range_fields)
  have "\<exists>s'. SetRssiHistory board0 5 77 state_last_bin = Inr s' \<and> rssiHistory s' ! unat (5 :: u16) = 77"
    by (rule C8_history_store [OF f(2), THEN conjunct1, rule_format]) (simp add: f)
  then have a: "rssiHistory (projr (SetRssiHistory board0 5 77 state_last_bin)) ! 5 = 77"
    by auto
  have g: "unat (fold_index 129 128) = 126" by (simp add: fold_index_def)
  have "\<exists>s'. SetRssiHistory board_range 128 7 state_range = Inr s' \<and>
          rssiHistory s' ! unat (fold_index (si_measurementsCount (scanInfo state_range)) 128) = 7"
    by (rule C8_history_store [OF l, THEN conjunct2, THEN conjunct1, rule_format])
       (simp add: state_range_fields g board_range_def board0_def)
  then have b: "rssiHistory (projr (SetRssiHistory board_range 128 7 state_range)) ! 126 = 7"
    by (auto simp: state_range_fields g)
  have "\<exists>s'. clear_unused_bins ?s = Inr s' \<and> length (rssiHistory s') = 128 \<and>
          (\<forall>k<128. rssiHistory s' ! k = (if k < unat (si_measurementsCount (scanInfo ?s))
                                             then rssiHistory ?s ! k else 0))"
    by (rule C8_history_store [OF f(4), THEN conjunct2, THEN conjunct2, rule_format])
       (simp only: f(3), simp)
  then obtain s' where c: "clear_unused_bins ?s = Inr s'"
    and d: "\<forall>k<128. rssiHistory s' ! k = (if k < unat (si_measurementsCount (scanInfo ?s))
                                             then rssiHistory ?s ! k else 0)"
    by blast
  from d [rule_format, of 63] d [rule_format, of 64]
  have "rssiHistory s' ! 63 = 9 \<and> rssiHistory s' ! 64 = 0"
    by (simp add: f)
  with a b c show ?thesis by simp
qed

section \<open>Folded writes to the history\<close>




section \<open>Smoothing\<close>

text \<open>A loop that writes \<open>g i\<close> to entry \<open>i\<close> for \<open>i\<close> from 0 to \<open>n - 1\<close>.\<close>

lemma fold_update_length [simp]:
  "length (fold (\<lambda>i t. t[i := g i]) ks xs) = length xs"
  by (induction ks arbitrary: xs) simp_all

lemma fold_update_upt_nth:
  "n \<le> length xs \<Longrightarrow>
     fold (\<lambda>i t. t[i := g i]) [0..<n] xs ! k = (if k < n then g k else xs ! k)"
proof (induction n)
  case 0
  then show ?case by simp
next
  case (Suc n)
  then show ?case
    by (auto simp: nth_list_update less_Suc_eq)
qed

text \<open>On a flat valid input the inner loop keeps \<open>sum = count * v\<close>.\<close>

lemma smooth_add_flat:
  assumes flat: "\<forall>k<n. sm ! k = v" and v: "v \<noteq> 0" "v \<noteq> RSSI_MAX_VALUE"
  shows "smooth_add sm n i j (of_nat c * ucast v, of_nat c) =
           (if 0 \<le> int i + j \<and> int i + j < int n
            then (of_nat (Suc c) * ucast v, of_nat (Suc c))
            else (of_nat c * ucast v, of_nat c))"
proof (cases "0 \<le> int i + j \<and> int i + j < int n")
  case True
  then have "nat (int i + j) < n" by linarith
  with flat have "sm ! nat (int i + j) = v" by simp
  with True v show ?thesis
    by (simp add: smooth_add_def Let_def word_gt_0 algebra_simps)
next
  case False
  then show ?thesis by (auto simp: smooth_add_def Let_def)
qed

lemma smooth_fold_flat:
  assumes flat: "\<forall>k<n. sm ! k = v" and v: "v \<noteq> 0" "v \<noteq> RSSI_MAX_VALUE"
  shows "fold (smooth_add sm n i) js (of_nat c * ucast v, of_nat c) =
           (of_nat (c + length (filter (\<lambda>j. 0 \<le> int i + j \<and> int i + j < int n) js)) * ucast v,
            of_nat (c + length (filter (\<lambda>j. 0 \<le> int i + j \<and> int i + j < int n) js)))"
proof (induction js arbitrary: c)
  case Nil
  then show ?case by simp
next
  case (Cons j js)
  let ?P = "\<lambda>j. 0 \<le> int i + j \<and> int i + j < int n"
  show ?case
  proof (cases "?P j")
    case True
    have "fold (smooth_add sm n i) (j # js) (of_nat c * ucast v, of_nat c)
            = fold (smooth_add sm n i) js (of_nat (Suc c) * ucast v, of_nat (Suc c))"
      using True by (simp only: fold_simps smooth_add_flat [OF assms] if_True simp_thms o_apply)
    also have "\<dots> = (of_nat (Suc c + length (filter ?P js)) * ucast v,
                        of_nat (Suc c + length (filter ?P js)))"
      by (rule Cons)
    also have "Suc c + length (filter ?P js) = c + length (filter ?P (j # js))"
      using True by simp
    finally show ?thesis .
  next
    case False
    have "fold (smooth_add sm n i) (j # js) (of_nat c * ucast v, of_nat c)
            = fold (smooth_add sm n i) js (of_nat c * ucast v, of_nat c)"
      using False by (simp only: fold_simps smooth_add_flat [OF assms] if_False simp_thms o_apply)
    also have "\<dots> = (of_nat (c + length (filter ?P js)) * ucast v,
                        of_nat (c + length (filter ?P js)))"
      by (rule Cons)
    also have "length (filter ?P js) = length (filter ?P (j # js))"
      using False by simp
    finally show ?thesis .
  qed
qed

text \<open>With 1 to 7 neighbours counted, the 32-bit sum does not overflow and the quotient is
  \<open>v\<close>.\<close>

lemma flat_quotient:
  assumes "1 \<le> k" "k \<le> 7"
  shows "(ucast ((of_nat k * ucast (v :: u16) :: u32) div ucast (of_nat k :: u8)) :: u16) = v"
    and "(0 :: u8) < of_nat k"
proof -
  have vb: "unat v < 65536" using unsigned_less [of v] by simp
  have k8: "unat (of_nat k :: u8) = k" using assms by (simp add: unat_of_nat)
  have k32: "unat (of_nat k :: u32) = k" using assms by (simp add: unat_of_nat)
  have d: "unat (ucast (of_nat k :: u8) :: u32) = k"
    using assms by (simp only: unsigned_ucast_eq k8) (simp add: take_bit_nat_eq_self)
  have "k * unat v \<le> 7 * 65536" using assms vb by (intro mult_mono) simp_all
  then have "unat (of_nat k :: u32) * unat (ucast v :: u32) < 2 ^ LENGTH(32)"
    by (simp only: k32 unat_ucast_16_32) simp
  then have "unat (of_nat k * ucast v :: u32) = unat (of_nat k :: u32) * unat (ucast v :: u32)"
    by (rule unat_mult_lem [THEN iffD1])
  then have p: "unat (of_nat k * ucast v :: u32) = k * unat v"
    by (simp only: k32 unat_ucast_16_32)
  have q: "unat ((of_nat k * ucast v :: u32) div ucast (of_nat k :: u8)) = unat v"
    using assms by (simp only: unat_div p d) simp
  have "unat (ucast ((of_nat k * ucast v :: u32) div ucast (of_nat k :: u8)) :: u16) = unat v"
    using vb by (simp only: unsigned_ucast_eq q) (simp add: take_bit_nat_eq_self)
  then show "(ucast ((of_nat k * ucast v :: u32) div ucast (of_nat k :: u8)) :: u16) = v"
    by (simp only: word_unat_eq_iff)
  show "(0 :: u8) < of_nat k"
    using k8 assms by (simp add: word_less_nat_alt)
qed

lemma window_count:
  assumes "i < n"
  shows "1 \<le> length (filter (\<lambda>j. 0 \<le> int i + j \<and> int i + j < int n) [-3, -2, -1, 0, 1, 2, 3])"
    and "length (filter (\<lambda>j. 0 \<le> int i + j \<and> int i + j < int n) [-3, -2, -1, 0, 1, 2, 3]) \<le> 7"
proof -
  let ?P = "\<lambda>j. 0 \<le> int i + j \<and> int i + j < int n"
  have "?P 0" using assms by simp
  then have "0 \<in> set (filter ?P [-3, -2, -1, 0, 1, 2, 3])" by simp
  then have "0 < length (filter ?P [-3, -2, -1, 0, 1, 2, 3])" by (rule length_pos_if_in_set)
  then show "1 \<le> length (filter ?P [-3, -2, -1, 0, 1, 2, 3])"
    by linarith
  have "length (filter ?P [-3, -2, -1, 0, 1, 2, 3]) \<le> length [-3, -2, -1, 0, 1, 2, 3 :: int]"
    by (rule length_filter_le)
  then show "length (filter ?P [-3, -2, -1, 0, 1, 2, 3]) \<le> 7" by simp
qed

lemma smooth_bin_flat:
  assumes flat: "\<forall>k<n. sm ! k = v" and v: "v \<noteq> 0" "v \<noteq> RSSI_MAX_VALUE" and i: "i < n"
  shows "smooth_bin sm n i = v"
proof -
  let ?js = "[-3, -2, -1, 0, 1, 2, 3] :: int list"
  define k where "k = length (filter (\<lambda>j. 0 \<le> int i + j \<and> int i + j < int n) ?js)"
  have k: "1 \<le> k" "k \<le> 7" unfolding k_def using window_count [OF i] by simp_all
  have "fold (smooth_add sm n i) ?js (of_nat 0 * ucast v, of_nat 0)
          = (of_nat (0 + k) * ucast v, of_nat (0 + k))"
    unfolding k_def by (rule smooth_fold_flat [OF flat v])
  then have f: "fold (smooth_add sm n i) ?js (0, 0) = (of_nat k * ucast v, of_nat k)"
    by simp
  show ?thesis
    unfolding smooth_bin_def f using flat_quotient(1) [OF k, of v] flat_quotient(2) [OF k] by simp
qed

text \<open>C9. For \<open>bars \<le> 128\<close> and a valid value \<open>v\<close> (neither 0 nor the sentinel): if every bin
  below \<open>bars\<close> of the history holds \<open>v\<close>, then \<^verbatim>\<open>SmoothSpectrum(bars)\<close> returns and every
  interior bin of the smoothed buffer (three neighbours on each side inside the range) holds
  exactly \<open>v\<close>.\<close>

theorem C9_flat_input:
  assumes bars: "bars \<le> 128" and v: "v \<noteq> 0" "v \<noteq> RSSI_MAX_VALUE"
    and wf: "wf s" and flat: "\<forall>i<unat bars. rssiHistory s ! i = v"
  shows "\<exists>s'. SmoothSpectrum bars s = Inr s' \<and>
           (\<forall>i. 3 \<le> i \<and> i + 3 < unat bars \<longrightarrow> spectrum_smoothed s' ! i = v)"
proof -
  define n where "n = unat bars"
  define sm where "sm = fold (\<lambda>i sm. sm[i := rssiHistory s ! i]) [0..<n] (spectrum_smoothed s)"
  define temp where "temp = fold (\<lambda>i t. t[i := smooth_bin sm n i]) [0..<n] (replicate 128 (0 :: u16))"
  from bars have n: "n \<le> 128" by (simp add: n_def word_le_nat_alt)
  from bars have nb: "\<not> 128 < bars" by (rule leD)
  from wf have len: "length (spectrum_smoothed s) = 128" by (simp add: wf_def)
  have sm: "\<forall>k<n. sm ! k = v"
    using flat n len by (simp add: sm_def n_def fold_update_upt_nth)
  have lsm: "length sm = 128" by (simp add: sm_def len)
  have temp: "\<forall>k<n. temp ! k = v"
    using n by (simp add: temp_def fold_update_upt_nth smooth_bin_flat [OF sm v])
  have "SmoothSpectrum bars s =
          Inr (s\<lparr>spectrum_smoothed := fold (\<lambda>i sm. sm[i := temp ! i]) [0..<n] sm\<rparr>)"
    using nb by (simp add: SmoothSpectrum_def Let_def n_def sm_def temp_def)
  moreover have "\<forall>k<n. fold (\<lambda>i sm. sm[i := temp ! i]) [0..<n] sm ! k = v"
    using n lsm temp by (simp add: fold_update_upt_nth)
  ultimately show ?thesis
    by (simp add: n_def)
qed

theorem C9_witness:
  "\<not> isl (SmoothSpectrum 16 state_flat) \<and>
   spectrum_smoothed (projr (SmoothSpectrum 16 state_flat)) ! 3 = 300 \<and>
   spectrum_smoothed (projr (SmoothSpectrum 16 state_flat)) ! 12 = 300"
proof -
  have w: "wf state_flat"
    by (simp add: wf_def state_flat_def state0_def list_all_length)
  have fl: "\<forall>i<unat (16 :: u16). rssiHistory state_flat ! i = 300"
    by (simp add: state_flat_def)
  have "\<exists>s'. SmoothSpectrum 16 state_flat = Inr s' \<and>
          (\<forall>i. 3 \<le> i \<and> i + 3 < unat (16 :: u16) \<longrightarrow> spectrum_smoothed s' ! i = 300)"
    by (rule C9_flat_input [OF _ _ _ w fl]) (simp_all add: RSSI_MAX_VALUE_def)
  then obtain s' where s': "SmoothSpectrum 16 state_flat = Inr s'"
    and a: "\<forall>i. 3 \<le> i \<and> i + 3 < unat (16 :: u16) \<longrightarrow> spectrum_smoothed s' ! i = 300"
    by blast
  from a [rule_format, of 3] a [rule_format, of 12]
  have "spectrum_smoothed s' ! 3 = 300 \<and> spectrum_smoothed s' ! 12 = 300" by simp
  with s' show ?thesis by simp
qed

section \<open>Start, step and end of the sweep\<close>

text \<open>Outside centre mode the sweep of \<open>N\<close> steps from \<^verbatim>\<open>GetFStart\<close> ends at
  \<open>currentFreq + GetBW\<close>, which is \<^verbatim>\<open>GetFEnd\<close> when no scan range is set.\<close>

lemma sweep_end_no_centre:
  assumes "\<not> IsCenterMode b s"
  shows "GetFStart b s + ucast (GetStepsCount b s) * ucast (GetScanStep b s) = currentFreq s + GetBW b s"
  using assms by (simp add: GetFStart_def GetBW_def)

lemma GetFEnd_no_range:
  assumes "\<not> (ENABLE_SCAN_RANGES b \<and> gScanRangeStart b \<noteq> 0)"
  shows "GetFEnd b s = currentFreq s + GetBW b s"
  using assms by (auto simp: GetFEnd_def)

text \<open>In centre mode \<^verbatim>\<open>GetFStart\<close> is moved down by half the bandwidth and \<^verbatim>\<open>GetFEnd\<close> is not
  moved: the sweep ends half a bandwidth below \<^verbatim>\<open>GetFEnd\<close>.\<close>

lemma sweep_end_centre:
  assumes "IsCenterMode b s" and "\<not> (ENABLE_SCAN_RANGES b \<and> gScanRangeStart b \<noteq> 0)"
  shows "GetFEnd b s - (GetFStart b s + ucast (GetStepsCount b s) * ucast (GetScanStep b s))
           = drop_bit 1 (GetBW b s)"
  using assms by (simp add: GetFStart_def GetFEnd_no_range GetBW_def)

text \<open>C3 at a centre-mode state: 128 bins of 1 unit around 145 MHz. The sweep starts at
  14499936 and its 128 steps end at 14500064, while \<^verbatim>\<open>GetFEnd\<close> returns 14500128, 64 steps
  further up.\<close>

theorem C3_centre_mode_gap:
  "IsCenterMode board0 state_centre \<and>
   GetStepsCount board0 state_centre = 128 \<and> GetScanStep board0 state_centre = 1 \<and>
   GetFStart board0 state_centre = 14499936 \<and>
   GetFStart board0 state_centre
     + ucast (GetStepsCount board0 state_centre) * ucast (GetScanStep board0 state_centre) = 14500064 \<and>
   GetFEnd board0 state_centre = 14500128"
  by (simp add: geometry_defs GetFEnd_def board0_def state_centre_def state0_def STEPS_128_def)

section \<open>The scan loop and the bounds of the history\<close>

lemma SetF_isListening [simp]: "isListening (SetF f s) = isListening s"
  by (simp add: SetF_def Let_def BK4819_WriteRegister_def driver_def)

lemma SetRssiHistory_Inr:
  assumes "SetRssiHistory b idx v s = Inr s'"
  shows "\<exists>h. s' = s\<lparr>rssiHistory := h\<rparr> \<and> length h = length (rssiHistory s)"
  using assms
  by (auto simp: SetRssiHistory_def bindE_Inr_iff rd_def wr_def Let_def split: if_splits)

lemma Measure_Inr:
  assumes "Measure b s = Inr s'"
  shows "\<exists>h r. s' = s\<lparr>n_samples := Suc (n_samples s), scanInfo := (scanInfo s)\<lparr>si_rssi := r\<rparr>,
                     rssiHistory := h\<rparr> \<and> length h = length (rssiHistory s)"
proof -
  from assms obtain h where
    "s' = s\<lparr>n_samples := Suc (n_samples s),
            scanInfo := (scanInfo s)\<lparr>si_rssi := hw_rssi b (n_samples s)\<rparr>, rssiHistory := h\<rparr>"
    and "length h = length (rssiHistory s)"
    by (auto simp: Measure_def GetRssi_def Let_def dest!: SetRssiHistory_Inr)
  then show ?thesis by blast
qed

lemma UpdateScanInfo_frame:
  "si_i (scanInfo (UpdateScanInfo b s)) = si_i (scanInfo s)"
  "si_measurementsCount (scanInfo (UpdateScanInfo b s)) = si_measurementsCount (scanInfo s)"
  "rssiHistory (UpdateScanInfo b s) = rssiHistory s"
  "newScanStart (UpdateScanInfo b s) = newScanStart s"
  "isListening (UpdateScanInfo b s) = isListening s"
  "currentState (UpdateScanInfo b s) = currentState s"
  "waterfall_rows (UpdateScanInfo b s) = waterfall_rows s"
  "waterfall_phase (UpdateScanInfo b s) = waterfall_phase s"
  by (simp_all add: UpdateScanInfo_def Let_def)

text \<open>What \<^verbatim>\<open>Scan\<close> leaves alone.\<close>

lemma Scan_frame:
  assumes "Scan b s = Inr s'"
  shows "length (rssiHistory s') = length (rssiHistory s)"
    "si_i (scanInfo s') = si_i (scanInfo s)"
    "si_measurementsCount (scanInfo s') = si_measurementsCount (scanInfo s)"
    "newScanStart s' = newScanStart s" "isListening s' = isListening s"
    "currentState s' = currentState s"
    "waterfall_rows s' = waterfall_rows s" "waterfall_phase s' = waterfall_phase s"
proof -
  from assms consider "s' = s"
    | s1 where "Measure b (SetF (si_f (scanInfo s)) s) = Inr s1" "s' = UpdateScanInfo b s1"
    by (auto simp: Scan_def bindE_Inr_iff split: if_splits)
  then have "length (rssiHistory s') = length (rssiHistory s) \<and>
    si_i (scanInfo s') = si_i (scanInfo s) \<and>
    si_measurementsCount (scanInfo s') = si_measurementsCount (scanInfo s) \<and>
    newScanStart s' = newScanStart s \<and> isListening s' = isListening s \<and>
    currentState s' = currentState s \<and>
    waterfall_rows s' = waterfall_rows s \<and> waterfall_phase s' = waterfall_phase s"
  proof cases
    case 1
    then show ?thesis by simp
  next
    case 2
    from Measure_Inr [OF 2(1)] obtain h r where
      "s1 = (SetF (si_f (scanInfo s)) s)\<lparr>n_samples := Suc (n_samples (SetF (si_f (scanInfo s)) s)),
              scanInfo := (scanInfo (SetF (si_f (scanInfo s)) s))\<lparr>si_rssi := r\<rparr>, rssiHistory := h\<rparr>"
      and "length h = length (rssiHistory (SetF (si_f (scanInfo s)) s))"
      by blast
    then show ?thesis by (simp add: 2(2) UpdateScanInfo_frame)
  qed
  then show "length (rssiHistory s') = length (rssiHistory s)"
    "si_i (scanInfo s') = si_i (scanInfo s)"
    "si_measurementsCount (scanInfo s') = si_measurementsCount (scanInfo s)"
    "newScanStart s' = newScanStart s" "isListening s' = isListening s"
    "currentState s' = currentState s"
    "waterfall_rows s' = waterfall_rows s" "waterfall_phase s' = waterfall_phase s"
    by simp_all
qed

text \<open>With at most 128 measurements \<^verbatim>\<open>Scan\<close> stays inside the history for a bin index below
  128, and reads \<^verbatim>\<open>rssiHistory[128]\<close> when the bin index is 128.\<close>

lemma Scan_in_range:
  assumes "length (rssiHistory s) = 128" and "unat (si_i (scanInfo s)) < 128"
    and "si_measurementsCount (scanInfo s) \<le> 128"
  shows "\<exists>s'. Scan b s = Inr s'"
proof -
  from assms(3) have n: "\<not> 128 < si_measurementsCount (scanInfo s)" by (rule leD)
  show ?thesis
    using assms(1,2) n
    by (simp add: Scan_def rd_def Measure_def GetRssi_def SetRssiHistory_def wr_def Let_def)
qed

lemma Scan_past_end:
  assumes "length (rssiHistory s) = 128" and "unat (si_i (scanInfo s)) = 128"
  shows "Scan b s = Inl (OutOfBounds 128)"
  using assms by (simp add: Scan_def rd_def)

lemma Tick_scan_bin:
  assumes "\<not> newScanStart s" and "length (rssiHistory s) = 128"
    and "si_i (scanInfo s) < si_measurementsCount (scanInfo s)"
    and "si_measurementsCount (scanInfo s) \<le> 128"
  shows "\<exists>s'. Tick_scan b s = Inr s' \<and> \<not> newScanStart s' \<and> length (rssiHistory s') = 128 \<and>
           si_i (scanInfo s') = si_i (scanInfo s) + 1 \<and>
           si_measurementsCount (scanInfo s') = si_measurementsCount (scanInfo s) \<and>
           isListening s' = isListening s \<and> currentState s' = currentState s"
proof -
  from assms(3,4) have "si_i (scanInfo s) < 128" by (rule less_le_trans)
  then have "unat (si_i (scanInfo s)) < 128" by (simp add: word_less_nat_alt)
  from Scan_in_range [OF assms(2) this assms(4)] obtain s1 where s1: "Scan b s = Inr s1" ..
  note fr = Scan_frame [OF s1]
  have "Tick_scan b s = Inr (NextScanStep s1)"
    using assms(1,3) s1 fr by (simp add: Tick_scan_def UpdateScan_def)
  moreover have "\<not> newScanStart (NextScanStep s1)" "length (rssiHistory (NextScanStep s1)) = 128"
    "si_i (scanInfo (NextScanStep s1)) = si_i (scanInfo s) + 1"
    "si_measurementsCount (scanInfo (NextScanStep s1)) = si_measurementsCount (scanInfo s)"
    "isListening (NextScanStep s1) = isListening s" "currentState (NextScanStep s1) = currentState s"
    using assms(1,2) fr by (simp_all add: NextScanStep_def)
  ultimately show ?thesis by simp
qed

lemma Tick_scan_past_end:
  assumes "\<not> newScanStart s" and "length (rssiHistory s) = 128"
    and "unat (si_i (scanInfo s)) = 128"
  shows "Tick_scan b s = Inl (OutOfBounds 128)"
  using assms(1) Scan_past_end [OF assms(2,3)] by (simp add: Tick_scan_def UpdateScan_def)

text \<open>A 128-bin pass: the bin index goes up by one per tick until it is 128, and the next tick
  calls \<^verbatim>\<open>Scan\<close> once more before the index is compared with the measurement count.\<close>

lemma pass_reaches_end:
  assumes "\<not> newScanStart s" and "length (rssiHistory s) = 128"
    and "si_measurementsCount (scanInfo s) = 128"
    and "\<not> isListening s" and "currentState s = SPECTRUM"
    and "unat (si_i (scanInfo s)) + k \<le> 128"
  shows "\<exists>s'. run_ticks b k s = Inr s' \<and> \<not> newScanStart s' \<and> length (rssiHistory s') = 128 \<and>
           si_measurementsCount (scanInfo s') = 128 \<and> \<not> isListening s' \<and>
           currentState s' = SPECTRUM \<and>
           unat (si_i (scanInfo s')) = unat (si_i (scanInfo s)) + k"
  using assms
proof (induction k arbitrary: s)
  case 0
  then show ?case by simp
next
  case (Suc k)
  from Suc.prems(6) have u: "unat (si_i (scanInfo s)) < 128" by simp
  then have lt: "si_i (scanInfo s) < si_measurementsCount (scanInfo s)"
    by (simp add: Suc.prems(3) word_less_nat_alt)
  have le: "si_measurementsCount (scanInfo s) \<le> 128" by (simp add: Suc.prems(3))
  from Tick_scan_bin [OF Suc.prems(1,2) lt le] obtain s1 where
    t: "Tick_scan b s = Inr s1" and n: "\<not> newScanStart s1" and l: "length (rssiHistory s1) = 128"
    and i: "si_i (scanInfo s1) = si_i (scanInfo s) + 1"
    and m: "si_measurementsCount (scanInfo s1) = si_measurementsCount (scanInfo s)"
    and li: "isListening s1 = isListening s" and cs: "currentState s1 = currentState s"
    by blast
  have "unat (si_i (scanInfo s) + 1) = unat (si_i (scanInfo s)) + 1"
    using u by (simp add: unat_word_ariths)
  then have i': "unat (si_i (scanInfo s1)) = unat (si_i (scanInfo s)) + 1" by (simp add: i)
  have "\<exists>s'. run_ticks b k s1 = Inr s' \<and> \<not> newScanStart s' \<and> length (rssiHistory s') = 128 \<and>
           si_measurementsCount (scanInfo s') = 128 \<and> \<not> isListening s' \<and>
           currentState s' = SPECTRUM \<and>
           unat (si_i (scanInfo s')) = unat (si_i (scanInfo s1)) + k"
    using Suc.prems n l m li cs i' by (intro Suc.IH) simp_all
  then show ?case
    using t Suc.prems(4,5) i' by simp
qed

lemma pass_overruns:
  assumes "\<not> newScanStart s" and "length (rssiHistory s) = 128"
    and "si_measurementsCount (scanInfo s) = 128"
    and "\<not> isListening s" and "currentState s = SPECTRUM"
    and "unat (si_i (scanInfo s)) + k = 128"
  shows "run_ticks b (Suc k) s = Inl (OutOfBounds 128)"
proof -
  from assms(6) have "unat (si_i (scanInfo s)) + k \<le> 128" by simp
  from pass_reaches_end [OF assms(1-5) this] obtain s' where
    r: "run_ticks b k s = Inr s'" and n: "\<not> newScanStart s'" and l: "length (rssiHistory s') = 128"
    and li: "\<not> isListening s'" and cs: "currentState s' = SPECTRUM"
    and i: "unat (si_i (scanInfo s')) = unat (si_i (scanInfo s)) + k"
    by blast
  from i assms(6) have "unat (si_i (scanInfo s')) = 128" by simp
  from Tick_scan_past_end [OF n l this] have e: "run_ticks b (Suc 0) s' = Inl (OutOfBounds 128)"
    using li cs by simp
  have split: "\<And>m s. run_ticks b (m + 1) s = bindE (run_ticks b m s) (run_ticks b (Suc 0))"
  proof -
    fix m s show "run_ticks b (m + 1) s = bindE (run_ticks b m s) (run_ticks b (Suc 0))"
    proof (induction m arbitrary: s)
      case 0
      then show ?case by (simp add: bindE_def split: sum.splits)
    next
      case (Suc m)
      show ?case
      proof (cases "Tick_scan b s")
        case (Inl e)
        then show ?thesis by simp
      next
        case (Inr s1)
        with Suc [of s1] show ?thesis by simp
      qed
    qed
  qed
  from split [of k s] r e show ?thesis by simp
qed

lemma first_tick:
  assumes "newScanStart s"
  shows "Tick_scan b s = Tick_scan b ((InitScan b s)\<lparr>newScanStart := False\<rparr>)"
  using assms by (simp add: Tick_scan_def)

lemma run_ticks_first:
  assumes "newScanStart s" and "\<not> isListening s" and "currentState s = SPECTRUM"
  shows "run_ticks b (Suc n) s = run_ticks b (Suc n) ((InitScan b s)\<lparr>newScanStart := False\<rparr>)"
  using assms by (simp add: first_tick InitScan_fields)

lemma state_128_init:
  "newScanStart state_128" "\<not> isListening state_128" "currentState state_128 = SPECTRUM"
  "\<not> newScanStart ((InitScan board0 state_128)\<lparr>newScanStart := False\<rparr>)"
  "length (rssiHistory ((InitScan board0 state_128)\<lparr>newScanStart := False\<rparr>)) = 128"
  "si_measurementsCount (scanInfo ((InitScan board0 state_128)\<lparr>newScanStart := False\<rparr>)) = 128"
  "\<not> isListening ((InitScan board0 state_128)\<lparr>newScanStart := False\<rparr>)"
  "currentState ((InitScan board0 state_128)\<lparr>newScanStart := False\<rparr>) = SPECTRUM"
  "si_i (scanInfo ((InitScan board0 state_128)\<lparr>newScanStart := False\<rparr>)) = 0"
  by (simp_all add: InitScan_fields GetStepsCount_def state_128_def state0_def board0_def STEPS_128_def)

text \<open>C1 at a 128-bin pass started from \<open>state_128\<close>: after 128 ticks the bin index equals the
  measurement count 128, and tick 129, the one that completes the pass, accesses
  \<^verbatim>\<open>rssiHistory[128]\<close>, one element beyond the array.\<close>

theorem C1_pass_of_128_overruns:
  "\<not> isl (run_ticks board0 128 state_128) \<and>
   si_measurementsCount (scanInfo (projr (run_ticks board0 128 state_128))) = 128 \<and>
   unat (si_i (scanInfo (projr (run_ticks board0 128 state_128)))) = 128 \<and>
   run_ticks board0 129 state_128 = Inl (OutOfBounds 128)"
proof -
  let ?s = "(InitScan board0 state_128)\<lparr>newScanStart := False\<rparr>"
  have n: "(128 :: nat) = Suc 127" "(129 :: nat) = Suc 128" by simp_all
  have a: "run_ticks board0 128 state_128 = run_ticks board0 128 ?s"
    unfolding n(1) by (rule run_ticks_first) (rule state_128_init)+
  have b: "run_ticks board0 129 state_128 = run_ticks board0 (Suc 128) ?s"
    unfolding n(2) by (rule run_ticks_first) (rule state_128_init)+
  have i: "unat (si_i (scanInfo ?s)) + 128 = 128" "unat (si_i (scanInfo ?s)) + 128 \<le> 128"
    using state_128_init(9) by simp_all
  from pass_reaches_end [OF state_128_init(4-8) i(2), of board0] obtain s' where
    "run_ticks board0 128 ?s = Inr s'" "si_measurementsCount (scanInfo s') = 128"
    "unat (si_i (scanInfo s')) = unat (si_i (scanInfo ?s)) + 128"
    by blast
  then have "\<not> isl (run_ticks board0 128 state_128) \<and>
   si_measurementsCount (scanInfo (projr (run_ticks board0 128 state_128))) = 128 \<and>
   unat (si_i (scanInfo (projr (run_ticks board0 128 state_128)))) = 128"
    using state_128_init(9) by (simp add: a)
  moreover have "run_ticks board0 129 state_128 = Inl (OutOfBounds 128)"
    unfolding b by (rule pass_overruns [OF state_128_init(4-8) i(1)])
  ultimately show ?thesis by simp
qed

section \<open>The waterfall across passes\<close>

lemma update_replicate_same: "(replicate n z)[r := z] = replicate n z"
proof (cases "r < n")
  case True
  then show ?thesis by (simp add: list_eq_iff_nth_eq nth_list_update)
next
  case False
  then have "length (replicate n z) \<le> r" by simp
  then show ?thesis by (rule list_update_beyond)
qed

lemma shift_replicate:
  assumes "\<forall>r \<in> set rs. r - 1 < n"
  shows "fold (\<lambda>r rows. rows[r := rows ! (r - 1)]) rs (replicate n z) = replicate n z"
  using assms by (induction rs) (simp_all add: update_replicate_same)

lemma waterfall_shift_blank:
  "waterfall_shift (replicate 16 z) = replicate 16 z"
  unfolding waterfall_shift_def by (rule shift_replicate) auto

text \<open>A line added to a waterfall that was just reset: the shift moves blank rows, the phase
  goes from 0 to 1.\<close>

lemma Waterfall_AddLine_fresh:
  assumes "fresh_waterfall s"
  shows "one_line_waterfall (Waterfall_AddLine b s)"
proof -
  have "drop 1 ((replicate 16 (replicate 16 (0 :: u8)))[0 := row]) = replicate 15 (replicate 16 0)" for row
    by (simp add: numeral_eq_Suc)
  then show ?thesis
    using assms
    by (simp add: one_line_waterfall_def fresh_waterfall_def Waterfall_AddLine_def Let_def
        waterfall_shift_blank)
qed

lemma fresh_waterfall_frame:
  assumes "waterfall_rows s' = waterfall_rows s" and "waterfall_phase s' = waterfall_phase s"
  shows "fresh_waterfall s' = fresh_waterfall s"
  using assms by (simp add: fresh_waterfall_def)

lemma clear_unused_bins_waterfall:
  assumes "clear_unused_bins s = Inr s'"
  shows "waterfall_rows s' = waterfall_rows s" "waterfall_phase s' = waterfall_phase s"
    "newScanStart s' = newScanStart s"
  using assms by (auto simp: clear_unused_bins_def Let_def split: if_splits)

lemma UpdatePeakInfo_waterfall:
  "waterfall_rows (UpdatePeakInfo s) = waterfall_rows s"
  "waterfall_phase (UpdatePeakInfo s) = waterfall_phase s"
  "newScanStart (UpdatePeakInfo s) = newScanStart s"
  by (simp_all add: UpdatePeakInfo_def UpdatePeakInfoForce_def AutoTriggerLevel_def)

lemma UpdateScan_finish_waterfall:
  assumes "UpdateScan_finish b s1 = Inr s'" and "fresh_waterfall s1" and "\<not> newScanStart s1"
  shows "if newScanStart s' then one_line_waterfall s' else fresh_waterfall s'"
proof -
  from assms(1) obtain s2 s4 where c: "clear_unused_bins s1 = Inr s2"
    and s4: "s4 = UpdatePeakInfo (s2\<lparr>redrawScreen := True, preventKeypress := False,
                 spectrum_peaks := replicate 128 0xFFFF, spectrum_peak_age := replicate 128 0\<rparr>)"
    and s': "s' = (if IsPeakOverLevel s4 then TuneToPeak (ToggleRX b True s4)
               else (Waterfall_AddLine b s4)\<lparr>newScanStart := True\<rparr>)"
    by (rule UpdateScan_finish_cases)
  note fr = clear_unused_bins_waterfall [OF c]
  have f4: "fresh_waterfall s4" and n4: "\<not> newScanStart s4"
    using assms(2,3) fr by (simp_all add: s4 UpdatePeakInfo_waterfall fresh_waterfall_def)
  show ?thesis
  proof (cases "IsPeakOverLevel s4")
    case True
    then have "s' = TuneToPeak (ToggleRX b True s4)" by (simp add: s')
    then show ?thesis using f4 n4 by (simp add: fresh_waterfall_def)
  next
    case False
    then have e: "s' = (Waterfall_AddLine b s4)\<lparr>newScanStart := True\<rparr>" by (simp add: s')
    from Waterfall_AddLine_fresh [OF f4, of b] show ?thesis
      by (simp add: e one_line_waterfall_def)
  qed
qed

text \<open>One tick of the sweep. A requested pass starts with \<^verbatim>\<open>InitScan\<close>, whose
  \<^verbatim>\<open>ResetScanStats\<close> resets the waterfall; nothing writes it until the pass completes.\<close>

lemma Tick_scan_waterfall:
  assumes "Tick_scan b s = Inr s'" and "newScanStart s \<or> fresh_waterfall s"
  shows "if newScanStart s' then one_line_waterfall s' else fresh_waterfall s'"
proof -
  define s0 where "s0 = (if newScanStart s then (InitScan b s)\<lparr>newScanStart := False\<rparr> else s)"
  have f0: "fresh_waterfall s0" and n0: "\<not> newScanStart s0"
    using assms(2) by (auto simp: s0_def fresh_waterfall_def InitScan_fields)
  from assms(1) have u: "UpdateScan b s0 = Inr s'"
    by (simp add: Tick_scan_def s0_def Let_def)
  then obtain s1 where s1: "Scan b s0 = Inr s1"
    and r: "(if si_i (scanInfo s1) < si_measurementsCount (scanInfo s1) then Inr (NextScanStep s1)
             else UpdateScan_finish b s1) = Inr s'"
    by (auto simp: UpdateScan_def bindE_Inr_iff)
  note fr = Scan_frame [OF s1]
  have f1: "fresh_waterfall s1" and n1: "\<not> newScanStart s1"
    using f0 n0 fr by (simp_all add: fresh_waterfall_def)
  show ?thesis
  proof (cases "si_i (scanInfo s1) < si_measurementsCount (scanInfo s1)")
    case True
    with r have "s' = NextScanStep s1" by simp
    then show ?thesis using f1 n1 by (simp add: NextScanStep_def fresh_waterfall_def)
  next
    case False
    with r have "UpdateScan_finish b s1 = Inr s'" by simp
    then show ?thesis using f1 n1 by (rule UpdateScan_finish_waterfall)
  qed
qed

lemma run_ticks_waterfall:
  assumes "run_ticks b (Suc n) s = Inr s'" and "newScanStart s \<or> fresh_waterfall s"
    and "\<not> isListening s" and "currentState s = SPECTRUM"
  shows "if newScanStart s' then one_line_waterfall s' else fresh_waterfall s'"
  using assms
proof (induction n arbitrary: s)
  case 0
  then have "Tick_scan b s = Inr s'" by (simp add: bindE_Inr_iff)
  then show ?case using "0.prems"(2) by (rule Tick_scan_waterfall)
next
  case (Suc n)
  from Suc.prems(1,3,4) obtain s1 where t: "Tick_scan b s = Inr s1"
    and r: "run_ticks b (Suc n) s1 = Inr s'"
    by (auto simp: bindE_Inr_iff)
  from Tick_scan_waterfall [OF t Suc.prems(2)]
  have q: "if newScanStart s1 then one_line_waterfall s1 else fresh_waterfall s1" .
  show ?case
  proof (cases "isListening s1 \<or> currentState s1 \<noteq> SPECTRUM")
    case True
    with r have "s' = s1" by simp
    with q show ?thesis by simp
  next
    case False
    then have li: "\<not> isListening s1" and cs: "currentState s1 = SPECTRUM" by simp_all
    from q have p: "newScanStart s1 \<or> fresh_waterfall s1" by (simp split: if_splits)
    show ?thesis by (rule Suc.IH [OF r p li cs])
  qed
qed

lemma run_ticks_one:
  assumes "\<not> isListening s" and "currentState s = SPECTRUM"
  shows "run_ticks b (Suc 0) s = Tick_scan b s"
  using assms by (cases "Tick_scan b s") simp_all

text \<open>C2 in the running tick loop. Start the loop where a pass is requested (as at the start
  of a session and after every completed pass) or the waterfall is reset. Whenever, after any
  number of ticks, a pass has just completed and pushed its line (\<^verbatim>\<open>newScanStart\<close> is set
  again), the phase is 1 and rows 1 to 15 are blank: no row of an earlier pass is retained
  and the phase never reaches 2, 3 or 0 at a completed pass.\<close>

theorem C2_waterfall_rebuilt_every_pass:
  assumes "run_ticks b (Suc n) s = Inr s'" and "newScanStart s \<or> fresh_waterfall s"
    and "\<not> isListening s" and "currentState s = SPECTRUM" and "newScanStart s'"
  shows "waterfall_phase s' = 1 \<and> drop 1 (waterfall_rows s') = replicate 15 (replicate 16 0)"
  using run_ticks_waterfall [OF assms(1-4)] assms(5) by (simp add: one_line_waterfall_def)

theorem C2_witness:
  "newScanStart (projr (run_ticks board0 (Suc 0) state_last_bin)) \<and>
   waterfall_phase (projr (run_ticks board0 (Suc 0) state_last_bin)) = 1 \<and>
   drop 1 (waterfall_rows (projr (run_ticks board0 (Suc 0) state_last_bin)))
     = replicate 15 (replicate 16 0)"
proof -
  have u: "UpdateScan board0 state_last_bin = Inr (projr (UpdateScan board0 state_last_bin))"
    and n: "newScanStart (projr (UpdateScan board0 state_last_bin))"
    by (simp_all add: scan_eval_defs UpdatePeakInfoForce_def AutoTriggerLevel_def clamp_def
          state_last_bin_def state0_def board0_def)
  have s: "\<not> isListening state_last_bin" "currentState state_last_bin = SPECTRUM"
    "\<not> newScanStart state_last_bin" "fresh_waterfall state_last_bin"
    by (simp_all add: state_last_bin_def state0_def fresh_waterfall_def)
  have r: "run_ticks board0 (Suc 0) state_last_bin = Inr (projr (UpdateScan board0 state_last_bin))"
    unfolding run_ticks_one [OF s(1,2)] using s(3) u by (simp add: Tick_scan_def)
  from C2_waterfall_rebuilt_every_pass [OF r _ s(1,2)] s(4) n r show ?thesis by simp
qed

end
